theory Spec2Isabelle
  imports Main
begin

section \<open>Data model of \<open>ChessGame\<close> (src/script.js)\<close>

text \<open>
  The class \<open>ChessGame\<close> keeps one mutable game: an 8 by 8 array \<open>board\<close> whose cells
  are \<open>null\<close> or a piece object \<open>{type, color, hasMoved}\<close>, the side to move, the
  captured pieces and the score of each colour, the move history, the en-passant target
  and the castling rights.  Rows and columns are JavaScript numbers; row 0 is black's
  back rank, row 7 is white's.

  The board is a map from squares to pieces: \<open>board[r][c]\<close> is \<open>board s (r, c)\<close>, where
  \<open>None\<close> stands for \<open>null\<close> and for the \<open>undefined\<close> that a column outside 0..7 reads.
  (A row outside 0..7 makes the JavaScript raise a TypeError; every function below is
  entered with its origin square on the board, and the destination is range-checked by
  \<open>isValidMove\<close> before it is used.)
\<close>

datatype color = White | Black

datatype pieceType = Pawn | Knight | Bishop | Rook | Queen | King

datatype piece = Piece (ptype: pieceType) (pcolor: color) (hasMoved: bool)

type_synonym square = "int \<times> int"

type_synonym grid = "square \<Rightarrow> piece option"

record castling =
  kingside :: bool
  queenside :: bool

record moveRecord =
  mfrom :: square
  mto :: square
  mpiece :: pieceType
  mcaptured :: "piece option"
  menPassantTarget :: "square option"

record game =
  board :: grid
  currentPlayer :: color
  capturedPieces :: "color \<Rightarrow> piece list"
  scores :: "color \<Rightarrow> int"
  moveHistory :: "moveRecord list"
  enPassantTarget :: "square option"
  castlingRights :: "color \<Rightarrow> castling"

text \<open>\<open>color === 'white' ? 'black' : 'white'\<close>\<close>

definition opponent :: "color \<Rightarrow> color" where
  "opponent c = (if c = White then Black else White)"

text \<open>\<open>this.pieceValues\<close>\<close>

fun pieceValues :: "pieceType \<Rightarrow> int" where
  "pieceValues Pawn = 1"
| "pieceValues Knight = 3"
| "pieceValues Bishop = 3"
| "pieceValues Rook = 5"
| "pieceValues Queen = 9"
| "pieceValues King = 0"

text \<open>
  The scan \<open>for (row = 0; row < 8; row++) for (col = 0; col < 8; col++)\<close> that
  \<open>findKing\<close>, \<open>isSquareAttacked\<close>, \<open>getValidMoves\<close>, \<open>isCheckmate\<close>, \<open>isStalemate\<close> and
  \<open>getAllValidMoves\<close> share: the squares in row-major order.
\<close>

definition allSquares :: "square list" where
  "allSquares = concat (map (\<lambda>r. map (\<lambda>c. (r, c)) [0..7]) [0..7])"

section \<open>Move Validator\<close>

subsection \<open>Geometry of the single pieces\<close>

text \<open>
  \<open>isPawnMoveValid\<close> (lines 295-328).  The two-square advance tests the destination
  only.  \<open>piece\<close> is read from the origin square; the callers pass the square of a pawn.
  A destination row outside 0 to 7 reads as an empty square here, where
  \<open>this.board[toRow][toCol]\<close> raises a \<open>TypeError\<close>; the definition follows the code for
  destination rows 0 to 7.
\<close>

definition isPawnMoveValid :: "game \<Rightarrow> int \<Rightarrow> int \<Rightarrow> int \<Rightarrow> int \<Rightarrow> bool" where
  "isPawnMoveValid s fromRow fromCol toRow toCol =
    (case board s (fromRow, fromCol) of
       None \<Rightarrow> False
     | Some piece \<Rightarrow>
        (let direction = (if pcolor piece = White then - 1 else 1);
             startRow = (if pcolor piece = White then 6 else 1);
             rowDiff = toRow - fromRow;
             colDiff = \<bar>toCol - fromCol\<bar>
         in if colDiff = 0 \<and> rowDiff = direction \<and> board s (toRow, toCol) = None then True
            else if colDiff = 0 \<and> fromRow = startRow \<and> rowDiff = 2 * direction
                    \<and> board s (toRow, toCol) = None then True
            else if colDiff = 1 \<and> rowDiff = direction then
              (if (case board s (toRow, toCol) of
                     None \<Rightarrow> False
                   | Some targetPiece \<Rightarrow> pcolor targetPiece \<noteq> pcolor piece) then True
               else if enPassantTarget s = Some (toRow, toCol) then True
               else False)
            else False))"

text \<open>
  \<open>isPathClear\<close> (lines 366-382).  \<open>isPathClear_while\<close> is the \<open>while\<close> loop, on the
  current square.  Nothing in the loop itself makes it stop when the destination is not on
  the line it walks, so its result is an option: \<open>None\<close> when it does not return.
  \<open>isRookMoveValid\<close> (lines 330-336) and \<open>isBishopMoveValid\<close> (338-347) call \<open>isPathClear\<close>
  only for two squares on one rank, file or diagonal, and there it returns
  (\<open>isPathClear_returns\<close> below).
\<close>

partial_function (option) isPathClear_while ::
  "grid \<Rightarrow> int \<Rightarrow> int \<Rightarrow> int \<Rightarrow> int \<Rightarrow> int \<Rightarrow> int \<Rightarrow> bool option" where
  "isPathClear_while b toRow toCol rowStep colStep currentRow currentCol =
    (if currentRow \<noteq> toRow \<or> currentCol \<noteq> toCol then
       (if b (currentRow, currentCol) \<noteq> None then Some False
        else isPathClear_while b toRow toCol rowStep colStep
               (currentRow + rowStep) (currentCol + colStep))
     else Some True)"

declare isPathClear_while.simps [code]

definition isPathClear :: "game \<Rightarrow> int \<Rightarrow> int \<Rightarrow> int \<Rightarrow> int \<Rightarrow> bool option" where
  "isPathClear s fromRow fromCol toRow toCol =
    (let rowStep = (if toRow > fromRow then 1 else if toRow < fromRow then - 1 else 0);
         colStep = (if toCol > fromCol then 1 else if toCol < fromCol then - 1 else 0)
     in isPathClear_while (board s) toRow toCol rowStep colStep
          (fromRow + rowStep) (fromCol + colStep))"

definition isRookMoveValid :: "game \<Rightarrow> int \<Rightarrow> int \<Rightarrow> int \<Rightarrow> int \<Rightarrow> bool" where
  "isRookMoveValid s fromRow fromCol toRow toCol =
    (if fromRow \<noteq> toRow \<and> fromCol \<noteq> toCol then False
     else isPathClear s fromRow fromCol toRow toCol = Some True)"

definition isBishopMoveValid :: "game \<Rightarrow> int \<Rightarrow> int \<Rightarrow> int \<Rightarrow> int \<Rightarrow> bool" where
  "isBishopMoveValid s fromRow fromCol toRow toCol =
    (if \<bar>toRow - fromRow\<bar> \<noteq> \<bar>toCol - fromCol\<bar> then False
     else isPathClear s fromRow fromCol toRow toCol = Some True)"

text \<open>
  On a common rank, file or diagonal the loop returns: it visits the squares strictly
  between the two and answers whether all of them are empty.
\<close>

lemma isPathClear_while_steps:
  assumes "rowStep \<noteq> 0 \<or> colStep \<noteq> 0"
  shows "isPathClear_while b toRow toCol rowStep colStep
           (toRow - int n * rowStep) (toCol - int n * colStep)
         = Some (\<forall>k\<in>{1..n}. b (toRow - int k * rowStep, toCol - int k * colStep) = None)"
proof (induction n)
  case 0
  show ?case by (simp add: isPathClear_while.simps)
next
  case (Suc n)
  define r where "r = toRow - int (Suc n) * rowStep"
  define c where "c = toCol - int (Suc n) * colStep"
  from assms have ne: "r \<noteq> toRow \<or> c \<noteq> toCol"
    by (auto simp: r_def c_def)
  have next_sq: "r + rowStep = toRow - int n * rowStep" "c + colStep = toCol - int n * colStep"
    by (simp_all add: r_def c_def algebra_simps)
  have split: "(\<forall>k\<in>{1..Suc n}. b (toRow - int k * rowStep, toCol - int k * colStep) = None)
      = (b (r, c) = None
         \<and> (\<forall>k\<in>{1..n}. b (toRow - int k * rowStep, toCol - int k * colStep) = None))"
    unfolding r_def c_def by (auto simp: atLeastAtMostSuc_conv)
  have "isPathClear_while b toRow toCol rowStep colStep r c
      = (if b (r, c) \<noteq> None then Some False
         else isPathClear_while b toRow toCol rowStep colStep (r + rowStep) (c + colStep))"
    using ne by (subst isPathClear_while.simps) simp
  also have "\<dots> = Some (b (r, c) = None
         \<and> (\<forall>k\<in>{1..n}. b (toRow - int k * rowStep, toCol - int k * colStep) = None))"
    unfolding next_sq Suc.IH by simp
  finally show ?case unfolding split r_def c_def .
qed

lemma isPathClear_returns:
  assumes "fromRow = toRow \<or> fromCol = toCol \<or> \<bar>toRow - fromRow\<bar> = \<bar>toCol - fromCol\<bar>"
  shows "\<exists>clear. isPathClear s fromRow fromCol toRow toCol = Some clear"
proof (cases "fromRow = toRow \<and> fromCol = toCol")
  case True
  then have "isPathClear s fromRow fromCol toRow toCol = Some True"
    by (simp add: isPathClear_def isPathClear_while.simps)
  then show ?thesis by blast
next
  case False
  define rowStep :: int where "rowStep = (if toRow > fromRow then 1 else if toRow < fromRow then - 1 else 0)"
  define colStep :: int where "colStep = (if toCol > fromCol then 1 else if toCol < fromCol then - 1 else 0)"
  define n where "n = nat (max \<bar>toRow - fromRow\<bar> \<bar>toCol - fromCol\<bar>) - 1"
  from False have step: "rowStep \<noteq> 0 \<or> colStep \<noteq> 0"
    by (auto simp: rowStep_def colStep_def)
  from False assms have start: "fromRow + rowStep = toRow - int n * rowStep"
    "fromCol + colStep = toCol - int n * colStep"
    by (auto simp: rowStep_def colStep_def n_def algebra_simps max_def nat_diff_distrib)
  have "isPathClear s fromRow fromCol toRow toCol
      = isPathClear_while (board s) toRow toCol rowStep colStep
          (toRow - int n * rowStep) (toCol - int n * colStep)"
    by (simp add: isPathClear_def rowStep_def[symmetric] colStep_def[symmetric] start Let_def)
  with isPathClear_while_steps[OF step] show ?thesis by simp
qed

text \<open>\<open>findKing\<close> (lines 589-599): the first square of the scan that holds a king of the colour.\<close>

definition findKing :: "game \<Rightarrow> color \<Rightarrow> square option" where
  "findKing s c =
    find (\<lambda>sq. case board s sq of
                 None \<Rightarrow> False
               | Some piece \<Rightarrow> ptype piece = King \<and> pcolor piece = c) allSquares"

subsection \<open>Attack detection and castling\<close>

text \<open>
  \<open>isPieceMovementValid\<close> (lines 270-293), \<open>isKingMoveValid\<close> (349-364), \<open>canCastle\<close>
  (384-416), \<open>isInCheck\<close> (552-557), \<open>wouldBeInCheck\<close> (559-570) and \<open>isSquareAttacked\<close>
  (601-613) call one another: a king's two-column move asks \<open>canCastle\<close>, which asks
  whether the king is or would be in check, which scans every piece of the other colour,
  kings included.  \<open>wouldBeInCheck\<close> writes a king \<open>{type: 'king', color: color}\<close> on the
  square, asks \<open>isSquareAttacked\<close> and writes the old content back; here the question is
  asked on the board with the king placed (the write-back is the subject of the
  state-passing semantics further down).  The loop \<open>for (i = 1; i <= 2; i++)\<close> of
  \<open>canCastle\<close> is written out for \<open>i = 1\<close> and \<open>i = 2\<close>.  \<open>canCastle\<close> reads the king
  from the origin square; both callers of \<open>isPieceMovementValid\<close> pass the square of the
  piece whose type they pass, so the branch for an empty origin is never taken.
\<close>

function isPieceMovementValid :: "game \<Rightarrow> pieceType \<Rightarrow> int \<Rightarrow> int \<Rightarrow> int \<Rightarrow> int \<Rightarrow> bool"
  and isKingMoveValid :: "game \<Rightarrow> int \<Rightarrow> int \<Rightarrow> int \<Rightarrow> int \<Rightarrow> bool"
  and canCastle :: "game \<Rightarrow> int \<Rightarrow> int \<Rightarrow> int \<Rightarrow> int \<Rightarrow> bool"
  and isInCheck :: "game \<Rightarrow> color \<Rightarrow> bool"
  and wouldBeInCheck :: "game \<Rightarrow> color \<Rightarrow> int \<Rightarrow> int \<Rightarrow> bool"
  and isSquareAttacked :: "game \<Rightarrow> int \<Rightarrow> int \<Rightarrow> color \<Rightarrow> bool"
where
  "isPieceMovementValid s pieceType fromRow fromCol toRow toCol =
    (case pieceType of
       Pawn \<Rightarrow> isPawnMoveValid s fromRow fromCol toRow toCol
     | Rook \<Rightarrow> isRookMoveValid s fromRow fromCol toRow toCol
     | Knight \<Rightarrow> (\<bar>toRow - fromRow\<bar> = 2 \<and> \<bar>toCol - fromCol\<bar> = 1)
                  \<or> (\<bar>toRow - fromRow\<bar> = 1 \<and> \<bar>toCol - fromCol\<bar> = 2)
     | Bishop \<Rightarrow> isBishopMoveValid s fromRow fromCol toRow toCol
     | Queen \<Rightarrow> isRookMoveValid s fromRow fromCol toRow toCol
                 \<or> isBishopMoveValid s fromRow fromCol toRow toCol
     | King \<Rightarrow> isKingMoveValid s fromRow fromCol toRow toCol)"
| "isKingMoveValid s fromRow fromCol toRow toCol =
    (if \<bar>toRow - fromRow\<bar> \<le> 1 \<and> \<bar>toCol - fromCol\<bar> \<le> 1 then True
     else if \<bar>toRow - fromRow\<bar> = 0 \<and> \<bar>toCol - fromCol\<bar> = 2
       then canCastle s fromRow fromCol toRow toCol
     else False)"
| "canCastle s fromRow fromCol toRow toCol =
    (case board s (fromRow, fromCol) of
       None \<Rightarrow> False
     | Some piece \<Rightarrow>
        if hasMoved piece then False
        else let isKingside = toCol > fromCol;
                 rookCol = (if isKingside then 7 else 0)
        in if (case board s (fromRow, rookCol) of
                 None \<Rightarrow> True
               | Some rook \<Rightarrow> ptype rook \<noteq> Rook \<or> hasMoved rook) then False
        else if \<not> (if isKingside then kingside (castlingRights s (pcolor piece))
                    else queenside (castlingRights s (pcolor piece))) then False
        else if list_ex (\<lambda>col. board s (fromRow, col) \<noteq> None)
                  [min fromCol rookCol + 1 .. max fromCol rookCol - 1] then False
        else if isInCheck s (pcolor piece) then False
        else let step = (if isKingside then 1 else - 1)
        in if wouldBeInCheck s (pcolor piece) fromRow (fromCol + 1 * step) then False
        else if wouldBeInCheck s (pcolor piece) fromRow (fromCol + 2 * step) then False
        else True)"
| "isInCheck s c =
    (case findKing s c of
       None \<Rightarrow> False
     | Some kingPosition \<Rightarrow>
         isSquareAttacked s (fst kingPosition) (snd kingPosition) (opponent c))"
| "wouldBeInCheck s c kingRow kingCol =
    isSquareAttacked (s\<lparr>board := (board s)((kingRow, kingCol) \<mapsto> Piece King c False)\<rparr>)
       kingRow kingCol (opponent c)"
| "isSquareAttacked s row col byColor =
    list_ex (\<lambda>sq. case board s sq of
                     None \<Rightarrow> False
                   | Some piece \<Rightarrow>
                       if pcolor piece = byColor
                       then isPieceMovementValid s (ptype piece) (fst sq) (snd sq) row col
                       else False) allSquares"
  by pat_completeness auto

text \<open>
  Termination.  The recursion is at most two castling tests deep: a castling test that
  is asked while an attack on an occupied square is computed fails before it recurses,
  because the occupied target square either blocks the way between king and rook or
  stands where the rook should be.  The measure counts how deep the castling tests below
  a call can still go.
\<close>

definition placeKing :: "game \<Rightarrow> color \<Rightarrow> int \<Rightarrow> int \<Rightarrow> game" where
  "placeKing s c kingRow kingCol =
     s\<lparr>board := (board s)((kingRow, kingCol) \<mapsto> Piece King c False)\<rparr>"

definition castleReady :: "game \<Rightarrow> int \<Rightarrow> int \<Rightarrow> int \<Rightarrow> bool" where
  "castleReady s fromRow fromCol toCol =
    (case board s (fromRow, fromCol) of
       None \<Rightarrow> False
     | Some piece \<Rightarrow>
        \<not> hasMoved piece \<and>
        (let rookCol = (if fromCol < toCol then 7 else 0)
         in \<not> (case board s (fromRow, rookCol) of
                 None \<Rightarrow> True
               | Some rook \<Rightarrow> ptype rook \<noteq> Rook \<or> hasMoved rook) \<and>
            (if fromCol < toCol then kingside (castlingRights s (pcolor piece))
             else queenside (castlingRights s (pcolor piece))) \<and>
            \<not> list_ex (\<lambda>col. board s (fromRow, col) \<noteq> None)
                 [min fromCol rookCol + 1 .. max fromCol rookCol - 1]))"

definition castlingKing :: "game \<Rightarrow> square \<Rightarrow> int \<Rightarrow> int \<Rightarrow> color \<Rightarrow> bool" where
  "castlingKing s sq row col byColor =
    (sq \<in> set allSquares \<and>
     (case board s sq of
        None \<Rightarrow> False
      | Some piece \<Rightarrow> pcolor piece = byColor \<and> ptype piece = King) \<and>
     fst sq = row \<and> \<bar>col - snd sq\<bar> = 2 \<and> castleReady s row (snd sq) col)"

definition risky :: "game \<Rightarrow> int \<Rightarrow> int \<Rightarrow> color \<Rightarrow> bool" where
  "risky s row col byColor = (\<exists>sq. castlingKing s sq row col byColor)"

definition castleDepth :: "game \<Rightarrow> int \<Rightarrow> int \<Rightarrow> int \<Rightarrow> nat" where
  "castleDepth s fromRow fromCol toCol =
    (if castleReady s fromRow fromCol toCol then
       (let c = pcolor (the (board s (fromRow, fromCol)));
            step = (if fromCol < toCol then 1 else - 1)
        in if risky (placeKing s c fromRow (fromCol + 1 * step)) fromRow (fromCol + 1 * step) (opponent c)
            \<or> risky (placeKing s c fromRow (fromCol + 2 * step)) fromRow (fromCol + 2 * step) (opponent c)
           then 2 else 1)
     else 0)"

definition kingDepth :: "game \<Rightarrow> int \<Rightarrow> int \<Rightarrow> int \<Rightarrow> int \<Rightarrow> nat" where
  "kingDepth s fromRow fromCol toRow toCol =
    (if toRow = fromRow \<and> \<bar>toCol - fromCol\<bar> = 2 then castleDepth s fromRow fromCol toCol else 0)"

definition attackDepth :: "game \<Rightarrow> int \<Rightarrow> int \<Rightarrow> color \<Rightarrow> nat" where
  "attackDepth s row col byColor =
    (if \<exists>sq. castlingKing s sq row col byColor \<and> castleDepth s row (snd sq) col = 2 then 2
     else if risky s row col byColor then 1 else 0)"

lemma set_allSquares: "set allSquares = {0..7} \<times> {0..7}"
  by (auto simp: allSquares_def)

lemma castleReady_occupied:
  assumes "castleReady s r fc x" "0 \<le> fc" "fc \<le> 7" "\<bar>x - fc\<bar> = 2"
    "board s (r, x) = Some q" "ptype q \<noteq> Rook"
    "board s (r, fc) = Some p" "ptype p \<noteq> Rook"
  shows "(fc = 6 \<and> x = 8) \<or> (fc = 1 \<and> x = - 1)"
proof (cases "fc < x")
  case True
  with assms(4) have x: "x = fc + 2" by linarith
  from assms(1) True obtain k where k: "board s (r, 7) = Some k" "ptype k = Rook"
    and clear: "\<forall>col\<in>{min fc 7 + 1 .. max fc 7 - 1}. board s (r, col) = None"
    by (auto simp: castleReady_def list_ex_iff split: option.splits)
  from k assms(5,6) have "x \<noteq> 7" by auto
  moreover from clear assms(5) have "x \<notin> {min fc 7 + 1 .. max fc 7 - 1}" by auto
  ultimately have "fc = 6 \<or> fc = 7" using x assms(2,3) by auto
  moreover from k assms(7,8) have "fc \<noteq> 7" by auto
  ultimately show ?thesis using x by auto
next
  case False
  with assms(4) have x: "x = fc - 2" by linarith
  from assms(1) False obtain k where k: "board s (r, 0) = Some k" "ptype k = Rook"
    and clear: "\<forall>col\<in>{min fc 0 + 1 .. max fc 0 - 1}. board s (r, col) = None"
    by (auto simp: castleReady_def list_ex_iff split: option.splits)
  from k assms(5,6) have "x \<noteq> 0" by auto
  moreover from clear assms(5) have "x \<notin> {min fc 0 + 1 .. max fc 0 - 1}" by auto
  ultimately have "fc = 1 \<or> fc = 0" using x assms(2,3) by auto
  moreover from k assms(7,8) have "fc \<noteq> 0" by auto
  ultimately show ?thesis using x by auto
qed

lemma castleReady_rook:
  assumes "castleReady s r fc x"
  shows "\<exists>k. board s (r, if fc < x then 7 else 0) = Some k \<and> ptype k = Rook"
  using assms by (auto simp: castleReady_def Let_def split: option.splits if_splits)

lemma castlingKing_D:
  assumes "castlingKing s sq row col byColor"
  shows "0 \<le> snd sq" "snd sq \<le> 7" "fst sq = row" "\<bar>col - snd sq\<bar> = 2"
    "castleReady s row (snd sq) col"
    "\<exists>p. board s (row, snd sq) = Some p \<and> ptype p = King \<and> pcolor p = byColor"
  using assms by (auto simp: castlingKing_def set_allSquares split: option.splits)

lemma not_risky_occupied:
  assumes "board s (row, col) = Some q" "ptype q \<noteq> Rook" "0 \<le> col" "col \<le> 7"
  shows "\<not> risky s row col byColor"
proof
  assume "risky s row col byColor"
  then obtain sq where sq: "castlingKing s sq row col byColor" by (auto simp: risky_def)
  from castlingKing_D[OF sq] obtain p where
    "board s (row, snd sq) = Some p" "ptype p = King" by auto
  with castleReady_occupied[OF castlingKing_D(5)[OF sq] castlingKing_D(1,2,4)[OF sq] assms(1,2)]
  have "col = 8 \<or> col = - 1" by auto
  with assms(3,4) show False by auto
qed

lemma board_placeKing [simp]:
  "board (placeKing s c r x) sq = (if sq = (r, x) then Some (Piece King c False) else board s sq)"
  by (simp add: placeKing_def)

lemma opponent_neq [simp]: "opponent c \<noteq> c" "c \<noteq> opponent c"
  by (auto simp: opponent_def)

lemma opponent_opponent [simp]: "opponent (opponent c) = c"
  by (cases c) (auto simp: opponent_def)

lemma placed_king_castling:
  assumes "castlingKing (placeKing s c r x) sq r x byColor"
  shows "(snd sq = 6 \<and> x = 8) \<or> (snd sq = 1 \<and> x = - 1)"
proof -
  let ?s = "placeKing s c r x"
  from castlingKing_D[OF assms] obtain p where
    p: "board ?s (r, snd sq) = Some p" "ptype p = King" by auto
  have q: "board ?s (r, x) = Some (Piece King c False)" by simp
  show ?thesis
    using castleReady_occupied[OF castlingKing_D(5)[OF assms] castlingKing_D(1,2,4)[OF assms] q _ p(1)] p(2)
    by simp
qed

lemma placed_king_depth:
  assumes "castlingKing (placeKing s c r x) sq r x (opponent c)"
  shows "castleDepth (placeKing s c r x) r (snd sq) x \<noteq> 2"
proof
  let ?s = "placeKing s c r x"
  assume d: "castleDepth ?s r (snd sq) x = 2"
  from castlingKing_D[OF assms] obtain p where
    p: "board ?s (r, snd sq) = Some p" "ptype p = King" "pcolor p = opponent c" by auto
  from castleReady_rook[OF castlingKing_D(5)[OF assms]] obtain k where
    k: "board ?s (r, if snd sq < x then 7 else 0) = Some k" "ptype k = Rook" by auto
  from placed_king_castling[OF assms] show False
  proof
    assume a: "snd sq = 6 \<and> x = 8"
    with d have "risky (placeKing ?s (opponent c) r 7) r 7 c
               \<or> risky (placeKing ?s (opponent c) r 8) r 8 c"
      using p by (auto simp: castleDepth_def Let_def split: if_splits)
    moreover have "\<not> risky (placeKing ?s (opponent c) r 7) r 7 c"
      by (rule not_risky_occupied[where q = "Piece King (opponent c) False"]) auto
    moreover have "\<not> risky (placeKing ?s (opponent c) r 8) r 8 c"
    proof
      assume "risky (placeKing ?s (opponent c) r 8) r 8 c"
      then obtain sq' where sq': "castlingKing (placeKing ?s (opponent c) r 8) sq' r 8 c"
        by (auto simp: risky_def)
      from placed_king_castling[OF sq'] have "snd sq' = 6" by auto
      with castlingKing_D(6)[OF sq'] p a show False by auto
    qed
    ultimately show False by blast
  next
    assume a: "snd sq = 1 \<and> x = - 1"
    with d have "risky (placeKing ?s (opponent c) r 0) r 0 c
               \<or> risky (placeKing ?s (opponent c) r (- 1)) r (- 1) c"
      using p by (auto simp: castleDepth_def Let_def split: if_splits)
    moreover have "\<not> risky (placeKing ?s (opponent c) r 0) r 0 c"
      by (rule not_risky_occupied[where q = "Piece King (opponent c) False"]) auto
    moreover have "\<not> risky (placeKing ?s (opponent c) r (- 1)) r (- 1) c"
    proof
      assume "risky (placeKing ?s (opponent c) r (- 1)) r (- 1) c"
      then obtain sq' where sq': "castlingKing (placeKing ?s (opponent c) r (- 1)) sq' r (- 1) c"
        by (auto simp: risky_def)
      from placed_king_castling[OF sq'] have "snd sq' = 1" by auto
      with castlingKing_D(6)[OF sq'] p a show False by auto
    qed
    ultimately show False by blast
  qed
qed

lemma attackDepth_placeKing:
  "attackDepth (placeKing s c r x) r x (opponent c)
     = (if risky (placeKing s c r x) r x (opponent c) then 1 else 0)"
  using placed_king_depth by (auto simp: attackDepth_def)

lemma findKing_Some:
  assumes "findKing s c = Some k"
  shows "k \<in> set allSquares" "\<exists>p. board s k = Some p \<and> ptype p = King"
  using assms by (auto simp: findKing_def find_Some_iff split: option.splits)

lemma attackDepth_findKing:
  assumes "findKing s c = Some k"
  shows "attackDepth s (fst k) (snd k) byColor = 0"
proof -
  from findKing_Some(2)[OF assms] obtain p where
    p: "board s (fst k, snd k) = Some p" "ptype p \<noteq> Rook" by auto
  from findKing_Some(1)[OF assms] have "0 \<le> snd k" "snd k \<le> 7"
    by (auto simp: set_allSquares)
  with p have "\<not> risky s (fst k) (snd k) byColor" by (rule not_risky_occupied)
  then show ?thesis by (auto simp: attackDepth_def risky_def)
qed

lemma castleDepth_le: "castleDepth s r fc x \<le> 2"
  by (simp add: castleDepth_def Let_def)

lemma kingDepth_le_attackDepth:
  assumes "sq \<in> set allSquares" "board s sq = Some p" "pcolor p = byColor" "ptype p = King"
  shows "kingDepth s (fst sq) (snd sq) row col \<le> attackDepth s row col byColor"
proof (cases "row = fst sq \<and> \<bar>col - snd sq\<bar> = 2 \<and> castleReady s row (snd sq) col")
  case True
  with assms have ck: "castlingKing s sq row col byColor" by (auto simp: castlingKing_def)
  then have "risky s row col byColor" unfolding risky_def by blast
  show ?thesis
  proof (cases "castleDepth s row (snd sq) col = 2")
    case True
    with ck have "\<exists>sq. castlingKing s sq row col byColor \<and> castleDepth s row (snd sq) col = 2"
      by blast
    then have "attackDepth s row col byColor = 2"
      unfolding attackDepth_def by simp
    then show ?thesis
      by (simp add: kingDepth_def castleDepth_le)
  next
    case False
    with castleDepth_le[of s row "snd sq" col] have "castleDepth s row (snd sq) col \<le> 1"
      by linarith
    with True have "castleDepth s (fst sq) (snd sq) col \<le> 1" by simp
    moreover from \<open>risky s row col byColor\<close> have "1 \<le> attackDepth s row col byColor"
      by (simp add: attackDepth_def)
    ultimately show ?thesis by (auto simp: kingDepth_def)
  qed
next
  case False
  then show ?thesis by (auto simp: kingDepth_def castleDepth_def)
qed

termination isPieceMovementValid
proof (relation "measure (\<lambda>x. case x of
    Inl (Inl (s, t, fr, fc, tr, tc)) \<Rightarrow>
      6 * (if t = King then kingDepth s fr fc tr tc else 0) + 3
  | Inl (Inr (Inl (s, fr, fc, tr, tc))) \<Rightarrow> 6 * kingDepth s fr fc tr tc + 2
  | Inl (Inr (Inr (s, fr, fc, tr, tc))) \<Rightarrow> 6 * castleDepth s fr fc tc + 1
  | Inr (Inl (s, c)) \<Rightarrow> 5
  | Inr (Inr (Inl (s, c, r, x))) \<Rightarrow> 6 * attackDepth (placeKing s c r x) r x (opponent c) + 5
  | Inr (Inr (Inr (s, row, col, byColor))) \<Rightarrow> 6 * attackDepth s row col byColor + 4)",
  goal_cases)
  case 1
  show ?case by simp
next
  case (2 s pieceType fromRow fromCol toRow toCol)
  then show ?case by simp
next
  case (3 s fromRow fromCol toRow toCol)
  then show ?case by (simp add: kingDepth_def)
next
  case (4 s fromRow fromCol toRow toCol x2 x xa)
  then have "castleReady s fromRow fromCol toCol"
    by (simp add: castleReady_def Let_def)
  then show ?case by (simp add: castleDepth_def Let_def)
next
  case (5 s fromRow fromCol toRow toCol x2 x xa xaa)
  then have "castleReady s fromRow fromCol toCol"
    by (simp add: castleReady_def Let_def)
  with 5 show ?case
    by (simp add: castleDepth_def Let_def attackDepth_placeKing placeKing_def [symmetric])
next
  case (6 s fromRow fromCol toRow toCol x2 x xa xaa)
  then have "castleReady s fromRow fromCol toCol"
    by (simp add: castleReady_def Let_def)
  with 6 show ?case
    by (simp add: castleDepth_def Let_def attackDepth_placeKing placeKing_def [symmetric])
next
  case (7 s c x2)
  then show ?case by (simp add: attackDepth_findKing)
next
  case (8 s c kingRow kingCol)
  show ?case by (simp add: placeKing_def)
next
  case (9 s row col byColor x x2)
  then show ?case
    using kingDepth_le_attackDepth[of x s x2 byColor row col] by auto
qed

text \<open>The recursive equations are unfolded only where a proof asks for them.\<close>

declare isPieceMovementValid.simps [simp del]
declare isKingMoveValid.simps [simp del]
declare canCastle.simps [simp del]
declare isInCheck.simps [simp del]
declare wouldBeInCheck.simps [simp del]
declare isSquareAttacked.simps [simp del]

subsection \<open>Legal moves\<close>

text \<open>
  \<open>wouldLeaveKingInCheck\<close> (lines 572-587) writes the moving piece on the destination,
  \<open>null\<close> on the origin, asks \<open>isInCheck\<close> for the mover's colour and writes both squares
  back.  Only these two squares are written: neither the rook of a castling move nor the
  pawn passed by an en-passant capture is touched.  (The branch for an empty origin
  square is never taken: \<open>isValidMove\<close> has found a piece there before it calls.)
\<close>

definition wouldLeaveKingInCheck :: "game \<Rightarrow> int \<Rightarrow> int \<Rightarrow> int \<Rightarrow> int \<Rightarrow> bool" where
  "wouldLeaveKingInCheck s fromRow fromCol toRow toCol =
    (case board s (fromRow, fromCol) of
       None \<Rightarrow> False
     | Some piece \<Rightarrow>
         isInCheck (s\<lparr>board := (board s)((toRow, toCol) \<mapsto> piece, (fromRow, fromCol) := None)\<rparr>)
           (pcolor piece))"

text \<open>\<open>isValidMove\<close> (lines 250-268).\<close>

definition isValidMove :: "game \<Rightarrow> int \<Rightarrow> int \<Rightarrow> int \<Rightarrow> int \<Rightarrow> bool" where
  "isValidMove s fromRow fromCol toRow toCol =
    (case board s (fromRow, fromCol) of
       None \<Rightarrow> False
     | Some piece \<Rightarrow>
         if pcolor piece \<noteq> currentPlayer s then False
         else if toRow < 0 \<or> toRow > 7 \<or> toCol < 0 \<or> toCol > 7 then False
         else if (case board s (toRow, toCol) of
                    None \<Rightarrow> False
                  | Some targetPiece \<Rightarrow> pcolor targetPiece = pcolor piece) then False
         else if \<not> isPieceMovementValid s (ptype piece) fromRow fromCol toRow toCol then False
         else if wouldLeaveKingInCheck s fromRow fromCol toRow toCol then False
         else True)"

text \<open>\<open>getValidMoves\<close> (lines 418-432): the destinations, in scan order.\<close>

definition getValidMoves :: "game \<Rightarrow> int \<Rightarrow> int \<Rightarrow> square list" where
  "getValidMoves s row col =
    (if board s (row, col) = None then []
     else filter (\<lambda>sq. isValidMove s row col (fst sq) (snd sq)) allSquares)"

section \<open>Check and terminal analysis\<close>

text \<open>\<open>isCheckmate\<close> (lines 615-631) and \<open>isStalemate\<close> (lines 633-649).\<close>

definition isCheckmate :: "game \<Rightarrow> color \<Rightarrow> bool" where
  "isCheckmate s c =
    (if \<not> isInCheck s c then False
     else if list_ex (\<lambda>sq. case board s sq of
                             None \<Rightarrow> False
                           | Some piece \<Rightarrow>
                               pcolor piece = c \<and> getValidMoves s (fst sq) (snd sq) \<noteq> [])
               allSquares then False
     else True)"

definition isStalemate :: "game \<Rightarrow> color \<Rightarrow> bool" where
  "isStalemate s c =
    (if isInCheck s c then False
     else if list_ex (\<lambda>sq. case board s sq of
                             None \<Rightarrow> False
                           | Some piece \<Rightarrow>
                               pcolor piece = c \<and> getValidMoves s (fst sq) (snd sq) \<noteq> [])
               allSquares then False
     else True)"

text \<open>
  \<open>getAllValidMoves\<close> (lines 819-833).  A move \<open>{from: [row, col], to: [toRow, toCol]}\<close>
  is the pair of its origin and its destination.
\<close>

type_synonym move = "square \<times> square"

definition getAllValidMoves :: "game \<Rightarrow> color \<Rightarrow> move list" where
  "getAllValidMoves s c =
    concat (map (\<lambda>sq. case board s sq of
                        None \<Rightarrow> []
                      | Some piece \<Rightarrow>
                          if pcolor piece = c
                          then map (\<lambda>to. (sq, to)) (getValidMoves s (fst sq) (snd sq))
                          else []) allSquares)"

section \<open>Move Executor\<close>

text \<open>
  \<open>capturePiece\<close> (lines 525-528): the piece is appended to the list, and its value
  added to the score, of the colour \<open>piece.color === 'white' ? 'black' : 'white'\<close>.
\<close>

definition capturePiece :: "game \<Rightarrow> piece \<Rightarrow> game" where
  "capturePiece s piece =
    s\<lparr>capturedPieces := (capturedPieces s)
          (opponent (pcolor piece) := capturedPieces s (opponent (pcolor piece)) @ [piece]),
      scores := (scores s)
          (opponent (pcolor piece) := scores s (opponent (pcolor piece)) + pieceValues (ptype piece))\<rparr>"

text \<open>
  \<open>handleSpecialMoves\<close> (lines 475-498).  The result is \<open>None\<close> where the JavaScript
  raises a TypeError: no piece on the origin, no rook in the corner of a king's
  two-column move, no pawn (or no row) behind the en-passant target.
\<close>

definition handleSpecialMoves :: "game \<Rightarrow> int \<Rightarrow> int \<Rightarrow> int \<Rightarrow> int \<Rightarrow> game option" where
  "handleSpecialMoves s fromRow fromCol toRow toCol =
    (case board s (fromRow, fromCol) of
       None \<Rightarrow> None
     | Some piece \<Rightarrow>
        (case (if ptype piece = King \<and> \<bar>toCol - fromCol\<bar> = 2 then
                 (let isKingside = toCol > fromCol;
                      rookFromCol = (if isKingside then 7 else 0);
                      rookToCol = (if isKingside then 5 else 3)
                  in case board s (fromRow, rookFromCol) of
                       None \<Rightarrow> None
                     | Some rook \<Rightarrow>
                         Some (s\<lparr>board := (board s)
                                 ((fromRow, rookToCol) \<mapsto> Piece (ptype rook) (pcolor rook) True,
                                  (fromRow, rookFromCol) := None)\<rparr>))
               else Some s) of
           None \<Rightarrow> None
         | Some s1 \<Rightarrow>
             if ptype piece = Pawn \<and> enPassantTarget s1 = Some (toRow, toCol) then
               (let capturedPawnRow = (if pcolor piece = White then toRow + 1 else toRow - 1)
                in if capturedPawnRow < 0 \<or> capturedPawnRow > 7 then None
                   else case board s1 (capturedPawnRow, toCol) of
                          None \<Rightarrow> None
                        | Some capturedPawn \<Rightarrow>
                            Some ((capturePiece s1 capturedPawn)
                                    \<lparr>board := (board s1)((capturedPawnRow, toCol) := None)\<rparr>))
             else Some s1))"

text \<open>\<open>updateEnPassantTarget\<close> (lines 500-510) and \<open>updateCastlingRights\<close> (512-523).\<close>

definition updateEnPassantTarget :: "game \<Rightarrow> piece \<Rightarrow> int \<Rightarrow> int \<Rightarrow> int \<Rightarrow> int \<Rightarrow> game" where
  "updateEnPassantTarget s piece fromRow fromCol toRow toCol =
    (let s1 = s\<lparr>enPassantTarget := None\<rparr>
     in if ptype piece = Pawn \<and> \<bar>toRow - fromRow\<bar> = 2
        then s1\<lparr>enPassantTarget := Some ((fromRow + toRow) div 2, toCol)\<rparr>
        else s1)"

definition updateCastlingRights :: "game \<Rightarrow> piece \<Rightarrow> int \<Rightarrow> int \<Rightarrow> game" where
  "updateCastlingRights s piece fromRow fromCol =
    (if ptype piece = King then
       s\<lparr>castlingRights := (castlingRights s)
            (pcolor piece := \<lparr>kingside = False, queenside = False\<rparr>)\<rparr>
     else if ptype piece = Rook then
       (if fromCol = 0 then
          s\<lparr>castlingRights := (castlingRights s)
               (pcolor piece := (castlingRights s (pcolor piece))\<lparr>queenside := False\<rparr>)\<rparr>
        else if fromCol = 7 then
          s\<lparr>castlingRights := (castlingRights s)
               (pcolor piece := (castlingRights s (pcolor piece))\<lparr>kingside := False\<rparr>)\<rparr>
        else s)
     else s)"

text \<open>
  \<open>makeMove\<close> (lines 434-473), without the rendering and the promotion dialog it opens.
  Reading \<open>this.board[toRow]\<close> or \<open>this.board[fromRow]\<close> for a row off the board raises a
  TypeError, as does a missing piece on the origin.  Pieces are values here: the piece
  written on the destination is the moving piece with \<open>hasMoved\<close> set.  (The JavaScript
  shares one object between the board, \<open>capturedPieces\<close> and \<open>moveHistory\<close>; the only
  field written after a piece has been captured is \<open>hasMoved\<close>, which no function reads
  from a captured piece.)
\<close>

definition makeMove :: "game \<Rightarrow> int \<Rightarrow> int \<Rightarrow> int \<Rightarrow> int \<Rightarrow> game option" where
  "makeMove s fromRow fromCol toRow toCol =
    (if fromRow < 0 \<or> fromRow > 7 \<or> toRow < 0 \<or> toRow > 7 then None
     else case board s (fromRow, fromCol) of
       None \<Rightarrow> None
     | Some piece \<Rightarrow>
        (let capturedPiece = board s (toRow, toCol)
         in case handleSpecialMoves s fromRow fromCol toRow toCol of
              None \<Rightarrow> None
            | Some s1 \<Rightarrow>
               (let s2 = (case capturedPiece of
                            None \<Rightarrow> s1
                          | Some cp \<Rightarrow> capturePiece s1 cp);
                    s3 = s2\<lparr>board := (board s2)
                            ((toRow, toCol) \<mapsto> Piece (ptype piece) (pcolor piece) True,
                             (fromRow, fromCol) := None)\<rparr>;
                    s4 = updateCastlingRights s3 piece fromRow fromCol;
                    s5 = s4\<lparr>moveHistory := moveHistory s4 @
                            [\<lparr>mfrom = (fromRow, fromCol), mto = (toRow, toCol),
                              mpiece = ptype piece, mcaptured = capturedPiece,
                              menPassantTarget = enPassantTarget s4\<rparr>]\<rparr>
                in Some (updateEnPassantTarget s5 piece fromRow fromCol toRow toCol))))"

text \<open>\<open>handlePawnPromotion\<close> (lines 537-550) on the square the dialog was opened for, and
  the change of the side to move in \<open>switchPlayer\<close> (line 652).\<close>

definition handlePawnPromotion :: "game \<Rightarrow> int \<Rightarrow> int \<Rightarrow> pieceType \<Rightarrow> game option" where
  "handlePawnPromotion s row col pieceType =
    (case board s (row, col) of
       None \<Rightarrow> None
     | Some piece \<Rightarrow>
         Some (s\<lparr>board := (board s)((row, col) \<mapsto> Piece pieceType (pcolor piece) (hasMoved piece)),
                 currentPlayer := opponent (currentPlayer s)\<rparr>))"

definition switchPlayer :: "game \<Rightarrow> game" where
  "switchPlayer s = s\<lparr>currentPlayer := opponent (currentPlayer s)\<rparr>"

section \<open>The initial game\<close>

text \<open>\<open>initializeBoard\<close> (lines 64-92) and the fields set by the constructor.\<close>

definition startingPosition :: "pieceType option list list" where
  "startingPosition =
    [[Some Rook, Some Knight, Some Bishop, Some Queen, Some King, Some Bishop, Some Knight, Some Rook],
     [Some Pawn, Some Pawn, Some Pawn, Some Pawn, Some Pawn, Some Pawn, Some Pawn, Some Pawn],
     [None, None, None, None, None, None, None, None],
     [None, None, None, None, None, None, None, None],
     [None, None, None, None, None, None, None, None],
     [None, None, None, None, None, None, None, None],
     [Some Pawn, Some Pawn, Some Pawn, Some Pawn, Some Pawn, Some Pawn, Some Pawn, Some Pawn],
     [Some Rook, Some Knight, Some Bishop, Some Queen, Some King, Some Bishop, Some Knight, Some Rook]]"

definition initializeBoard :: grid where
  "initializeBoard = (\<lambda>(row, col).
     if 0 \<le> row \<and> row < 8 \<and> 0 \<le> col \<and> col < 8 then
       (case startingPosition ! nat row ! nat col of
          None \<Rightarrow> None
        | Some t \<Rightarrow> Some (Piece t (if row < 2 then Black else White) False))
     else None)"

definition newGame :: game where
  "newGame = \<lparr> board = initializeBoard, currentPlayer = White,
     capturedPieces = (\<lambda>c. []), scores = (\<lambda>c. 0), moveHistory = [],
     enPassantTarget = None,
     castlingRights = (\<lambda>c. \<lparr> kingside = True, queenside = True \<rparr>) \<rparr>"

text \<open>
  A game played move by move, as \<open>handleSquareClick\<close> (lines 173-192) and \<open>makeBotMove\<close>
  (lines 785-813) do it: the move is made only if \<open>isValidMove\<close> accepts it, and then the
  side to move changes.  The result is \<open>None\<close> when a move of the list is rejected.
\<close>

fun play :: "game \<Rightarrow> move list \<Rightarrow> game option" where
  "play s [] = Some s"
| "play s (m # ms) =
    (if isValidMove s (fst (fst m)) (snd (fst m)) (fst (snd m)) (snd (snd m)) then
       (case makeMove s (fst (fst m)) (snd (fst m)) (fst (snd m)) (snd (snd m)) of
          None \<Rightarrow> None
        | Some s' \<Rightarrow> play (switchPlayer s') ms)
     else None)"

section \<open>Properties of the check analysis\<close>

subsection \<open>The king lookup of \<open>isInCheck\<close>\<close>

text \<open>
  \<open>kingAt s c sq\<close>: the square holds a king of colour \<open>c\<close>.  \<open>scansBefore sq sq'\<close>: the
  row-major scan visits \<open>sq\<close> before \<open>sq'\<close>.
\<close>

definition kingAt :: "game \<Rightarrow> color \<Rightarrow> square \<Rightarrow> bool" where
  "kingAt s c sq =
    (case board s sq of None \<Rightarrow> False | Some piece \<Rightarrow> ptype piece = King \<and> pcolor piece = c)"

definition scansBefore :: "square \<Rightarrow> square \<Rightarrow> bool" where
  "scansBefore sq sq' = (fst sq < fst sq' \<or> (fst sq = fst sq' \<and> snd sq < snd sq'))"

lemma allSquares_nth: "allSquares = map (\<lambda>i. (int (i div 8), int (i mod 8))) [0..<64]"
  by code_simp

lemma allSquares_index:
  assumes "i < 64"
  shows "allSquares ! i = (int (i div 8), int (i mod 8))"
  using assms by (simp add: allSquares_nth del: upt_Suc)

lemma findKing_eq_kingAt:
  "findKing s c = find (kingAt s c) allSquares"
  by (simp add: findKing_def kingAt_def[abs_def])

lemma findKing_None:
  assumes "\<forall>sq\<in>set allSquares. \<not> kingAt s c sq"
  shows "findKing s c = None"
  using assms by (simp add: findKing_eq_kingAt find_None_iff)

lemma findKing_first:
  assumes "(row, col) \<in> set allSquares" "kingAt s c (row, col)"
    and "\<forall>sq\<in>set allSquares. scansBefore sq (row, col) \<longrightarrow> \<not> kingAt s c sq"
  shows "findKing s c = Some (row, col)"
proof -
  from assms(1) have rc: "0 \<le> row" "row \<le> 7" "0 \<le> col" "col \<le> 7"
    by (auto simp: set_allSquares)
  define i where "i = nat (row * 8 + col)"
  from rc have i: "i < 64" by (simp add: i_def)
  from rc have id: "int (i div 8) = row" "int (i mod 8) = col"
    by (simp_all add: i_def nat_div_distrib nat_mod_distrib zdiv_int zmod_int)
  with i have nth: "allSquares ! i = (row, col)" by (simp add: allSquares_index)
  have before: "\<not> kingAt s c (allSquares ! j)" if "j < i" for j
  proof -
    from that i have j: "j < 64" by simp
    have "j = 8 * (j div 8) + j mod 8" "i = 8 * (i div 8) + i mod 8" by simp_all
    moreover have "j mod 8 < 8" "i mod 8 < 8" by simp_all
    ultimately have "j div 8 < i div 8 \<or> (j div 8 = i div 8 \<and> j mod 8 < i mod 8)"
      using that by linarith
    with id have "scansBefore (allSquares ! j) (row, col)"
      using j by (auto simp: scansBefore_def allSquares_index)
    moreover have "allSquares ! j \<in> set allSquares"
      using j by (simp add: allSquares_nth del: upt_Suc)
    ultimately show ?thesis using assms(3) by blast
  qed
  have "length allSquares = 64" by (simp add: allSquares_nth del: upt_Suc)
  with i nth before assms(2) show ?thesis
    unfolding findKing_eq_kingAt find_Some_iff by (intro exI[of _ i]) simp
qed


text \<open>
  Claim C9.  When no square of the board holds a king of colour \<open>c\<close>, \<open>isInCheck s c\<close> is
  \<open>False\<close> (no error is raised: the function is total); otherwise it is the answer of
  \<open>isSquareAttacked\<close> for the square of \<open>c\<close>'s king (the first one in scan order, should
  the board hold several) and the opposite colour.
\<close>

theorem isInCheck_king_lookup:
  "((\<forall>sq\<in>set allSquares. \<not> kingAt s c sq) \<longrightarrow> isInCheck s c = False) \<and>
   (\<forall>row col. (row, col) \<in> set allSquares \<and> kingAt s c (row, col) \<and>
        (\<forall>sq\<in>set allSquares. scansBefore sq (row, col) \<longrightarrow> \<not> kingAt s c sq)
      \<longrightarrow> isInCheck s c = isSquareAttacked s row col (opponent c))"
proof (intro conjI impI allI)
  assume "\<forall>sq\<in>set allSquares. \<not> kingAt s c sq"
  then have "findKing s c = None" by (rule findKing_None)
  then show "isInCheck s c = False" by (simp add: isInCheck.simps)
next
  fix row col
  assume a: "(row, col) \<in> set allSquares \<and> kingAt s c (row, col) \<and>
        (\<forall>sq\<in>set allSquares. scansBefore sq (row, col) \<longrightarrow> \<not> kingAt s c sq)"
  then have "findKing s c = Some (row, col)" by (intro findKing_first) auto
  then show "isInCheck s c = isSquareAttacked s row col (opponent c)"
    by (simp add: isInCheck.simps)
qed

text \<open>A game with an empty board, for examples.\<close>

definition emptyGame :: game where
  "emptyGame = newGame\<lparr>board := (\<lambda>sq. None)\<rparr>"

theorem isInCheck_king_lookup_witness:
  "list_all (\<lambda>sq. \<not> kingAt emptyGame White sq) allSquares \<and>
   isInCheck emptyGame White = False \<and>
   (7, 4) \<in> set allSquares \<and> kingAt newGame White (7, 4) \<and>
   list_all (\<lambda>sq. \<not> (scansBefore sq (7, 4) \<and> kingAt newGame White sq)) allSquares \<and>
   isInCheck newGame White = isSquareAttacked newGame 7 4 (opponent White)"
proof -
  have 1: "list_all (\<lambda>sq. \<not> kingAt emptyGame White sq) allSquares"
    by (simp add: kingAt_def emptyGame_def list_all_iff)
  have 2: "(7, 4) \<in> set allSquares" by (simp add: set_allSquares)
  have 3: "kingAt newGame White (7, 4)" by code_simp
  have 4: "list_all (\<lambda>sq. \<not> (scansBefore sq (7, 4) \<and> kingAt newGame White sq)) allSquares"
    by code_simp
  from 1 have none: "\<forall>sq\<in>set allSquares. \<not> kingAt emptyGame White sq"
    by (simp add: list_all_iff)
  from 4 have first: "\<forall>sq\<in>set allSquares. scansBefore sq (7, 4) \<longrightarrow> \<not> kingAt newGame White sq"
    by (simp add: list_all_iff)
  from isInCheck_king_lookup[of emptyGame White] none
  have 5: "isInCheck emptyGame White = False" by blast
  from isInCheck_king_lookup[of newGame White] 2 3 first
  have 6: "isInCheck newGame White = isSquareAttacked newGame 7 4 (opponent White)" by blast
  from 1 2 3 4 5 6 show ?thesis by blast
qed

subsection \<open>Rejections of \<open>canCastle\<close>\<close>

text \<open>
  Claim C3.  For the king on the origin square, \<open>canCastle\<close> returns \<open>False\<close> whenever
  the king has moved, or the corner square on the king's rank (column 7 towards the
  king's side, column 0 towards the queen's side) holds no rook or a rook that has moved,
  or the castling right of the king's colour for that side is off, or a square strictly
  between king and corner is occupied, or the king's colour is in check, or one of the
  two squares the king crosses (the second is the destination) is attacked by the other
  colour once a king of the mover's colour is placed on it.
\<close>

theorem canCastle_rejects:
  assumes "board s (fromRow, fromCol) = Some king"
    and "rookCol = (if toCol > fromCol then 7 else 0)"
    and "step = (if toCol > fromCol then 1 else - 1)"
    and "hasMoved king
       \<or> (case board s (fromRow, rookCol) of
             None \<Rightarrow> True
           | Some rook \<Rightarrow> ptype rook \<noteq> Rook \<or> hasMoved rook)
       \<or> \<not> (if toCol > fromCol then kingside (castlingRights s (pcolor king))
              else queenside (castlingRights s (pcolor king)))
       \<or> (\<exists>col. min fromCol rookCol < col \<and> col < max fromCol rookCol
                \<and> board s (fromRow, col) \<noteq> None)
       \<or> isInCheck s (pcolor king)
       \<or> isSquareAttacked (placeKing s (pcolor king) fromRow (fromCol + step))
             fromRow (fromCol + step) (opponent (pcolor king))
       \<or> isSquareAttacked (placeKing s (pcolor king) fromRow (fromCol + 2 * step))
             fromRow (fromCol + 2 * step) (opponent (pcolor king))"
  shows "\<not> canCastle s fromRow fromCol toRow toCol"
proof
  assume c: "canCastle s fromRow fromCol toRow toCol"
  from c assms(1) have 1: "\<not> hasMoved king"
    by (simp add: canCastle.simps split: if_splits)
  from c assms(1,2) 1 have 2: "\<not> (case board s (fromRow, rookCol) of
             None \<Rightarrow> True
           | Some rook \<Rightarrow> ptype rook \<noteq> Rook \<or> hasMoved rook)"
    by (simp add: canCastle.simps Let_def split: if_splits)
  from c assms(1,2) 1 2 have 3: "if toCol > fromCol then kingside (castlingRights s (pcolor king))
              else queenside (castlingRights s (pcolor king))"
    by (simp add: canCastle.simps Let_def split: if_splits)
  from c assms(1,2) 1 2 3 have 4: "\<not> list_ex (\<lambda>col. board s (fromRow, col) \<noteq> None)
                  [min fromCol rookCol + 1 .. max fromCol rookCol - 1]"
    by (simp add: canCastle.simps Let_def split: if_splits)
  then have clear: "\<not> (\<exists>col. min fromCol rookCol < col \<and> col < max fromCol rookCol
                \<and> board s (fromRow, col) \<noteq> None)"
    by (auto simp: list_ex_iff)
  from c assms(1,2) 1 2 3 4 have 5: "\<not> isInCheck s (pcolor king)"
    by (simp add: canCastle.simps Let_def split: if_splits)
  from c assms(1,2,3) 1 2 3 4 5 have 6:
    "\<not> wouldBeInCheck s (pcolor king) fromRow (fromCol + step)"
    "\<not> wouldBeInCheck s (pcolor king) fromRow (fromCol + 2 * step)"
    by (simp_all add: canCastle.simps Let_def split: if_splits)
  then have "\<not> isSquareAttacked (placeKing s (pcolor king) fromRow (fromCol + step))
             fromRow (fromCol + step) (opponent (pcolor king))"
    "\<not> isSquareAttacked (placeKing s (pcolor king) fromRow (fromCol + 2 * step))
             fromRow (fromCol + 2 * step) (opponent (pcolor king))"
    by (simp_all add: wouldBeInCheck.simps placeKing_def)
  with assms(4) 1 2 3 clear 5 show False by blast
qed


text \<open>
  Example positions: a board given by the list of its pieces; white king and rooks on
  their original squares with nothing between them, and the same with a black rook on
  the open f-file.
\<close>

definition boardOf :: "(square \<times> piece) list \<Rightarrow> grid" where
  "boardOf ps = map_of ps"

definition castleGame :: game where
  "castleGame = newGame\<lparr>board := boardOf
     [((0, 4), Piece King Black True),
      ((7, 0), Piece Rook White False), ((7, 4), Piece King White False),
      ((7, 7), Piece Rook White False)]\<rparr>"

definition castleAttacked :: game where
  "castleAttacked = castleGame\<lparr>board := (board castleGame)((0, 5) \<mapsto> Piece Rook Black True)\<rparr>"

text \<open>Castling is accepted on either side in the first position.\<close>

lemma canCastle_example:
  "canCastle castleGame 7 4 7 6 \<and> canCastle castleGame 7 4 7 2"
  by code_simp

theorem canCastle_rejects_witness:
  "board castleAttacked (7, 4) = Some (Piece King White False) \<and>
   isSquareAttacked (placeKing castleAttacked White 7 (4 + 1)) 7 (4 + 1) (opponent White) \<and>
   \<not> canCastle castleAttacked 7 4 7 6"
proof -
  have 1: "board castleAttacked (7, 4) = Some (Piece King White False)" by code_simp
  have 2: "isSquareAttacked (placeKing castleAttacked White 7 (4 + 1)) 7 (4 + 1) (opponent White)"
    by code_simp
  from canCastle_rejects[of castleAttacked 7 4 "Piece King White False" 7 6 1 7, OF 1] 2
  have "\<not> canCastle castleAttacked 7 4 7 6" by simp
  with 1 2 show ?thesis by blast
qed

subsection \<open>Pawns in \<open>isSquareAttacked\<close>\<close>

lemma isSquareAttacked_by:
  assumes "sq \<in> set allSquares" "board s sq = Some piece" "pcolor piece = byColor"
    "isPieceMovementValid s (ptype piece) (fst sq) (snd sq) row col"
  shows "isSquareAttacked s row col byColor"
  unfolding isSquareAttacked.simps list_ex_iff using assms by (intro bexI[of _ sq]) auto

lemma isSquareAttacked_iff:
  "isSquareAttacked s row col byColor
     = (\<exists>sq\<in>set allSquares. \<exists>piece. board s sq = Some piece \<and> pcolor piece = byColor
          \<and> isPieceMovementValid s (ptype piece) (fst sq) (snd sq) row col)"
  unfolding isSquareAttacked.simps list_ex_iff
  by (auto split: option.splits if_splits)

lemma pawn_reaches_diagonal:
  assumes "board s (fromRow, fromCol) = Some pawn" "ptype pawn = Pawn" "pcolor pawn = byColor"
    and "direction = (if byColor = White then - 1 else 1)"
    and "\<bar>toCol - fromCol\<bar> = 1"
  shows "isPieceMovementValid s (ptype pawn) fromRow fromCol (fromRow + direction) toCol
              = ((\<exists>target. board s (fromRow + direction, toCol) = Some target
                           \<and> pcolor target \<noteq> byColor)
                 \<or> enPassantTarget s = Some (fromRow + direction, toCol))"
  using assms
  by (auto simp: isPieceMovementValid.simps isPawnMoveValid_def split: option.splits)

text \<open>
  Three positions with a black pawn on a7: alone on the board; with a white knight on
  b6, diagonally in front of it, and the black king on e8; alone, with b6 the en-passant
  target.
\<close>

definition lonePawn :: game where
  "lonePawn = emptyGame\<lparr>board := boardOf [((1, 0), Piece Pawn Black False)]\<rparr>"

definition pawnFacingKnight :: game where
  "pawnFacingKnight = emptyGame\<lparr>board := boardOf
     [((0, 4), Piece King Black False), ((1, 0), Piece Pawn Black False),
      ((2, 1), Piece Knight White True)]\<rparr>"

definition pawnBesideTarget :: game where
  "pawnBesideTarget = lonePawn\<lparr>enPassantTarget := Some (2, 1)\<rparr>"

text \<open>
  Claim C10.  Take a pawn of colour \<open>byColor\<close> on a square of the board; the squares
  spoken of are squares of the board, rows and columns 0 to 7, as for every call of
  \<open>isSquareAttacked\<close> in the program.  \<open>isSquareAttacked\<close> reports the square directly in
  front of the pawn as attacked whenever that square is empty, and, for a pawn on its
  starting rank, the square two ahead whenever that square is empty (which is when the
  two-square push is accepted).  A diagonally adjacent square in front is reached by the
  pawn exactly when it holds a piece of the other colour or is the en-passant target, and
  \<open>isSquareAttacked\<close> reports it as attacked exactly when it holds a piece of the other
  colour, or is the en-passant target, or some other piece of \<open>byColor\<close> reaches it: with no
  other such piece, an empty diagonal square that is not the en-passant target is not
  attacked.
\<close>

theorem pawn_push_counts_as_attack:
  assumes "(fromRow, fromCol) \<in> set allSquares"
    and "board s (fromRow, fromCol) = Some pawn" "ptype pawn = Pawn" "pcolor pawn = byColor"
    and "direction = (if byColor = White then - 1 else 1)"
    and "startRow = (if byColor = White then 6 else 1)"
  shows "((fromRow + direction, fromCol) \<in> set allSquares
          \<and> board s (fromRow + direction, fromCol) = None
            \<longrightarrow> isSquareAttacked s (fromRow + direction) fromCol byColor)
       \<and> (fromRow = startRow \<and> board s (fromRow + 2 * direction, fromCol) = None
            \<longrightarrow> (fromRow + 2 * direction, fromCol) \<in> set allSquares
              \<and> isSquareAttacked s (fromRow + 2 * direction) fromCol byColor)
       \<and> (\<forall>toCol. \<bar>toCol - fromCol\<bar> = 1 \<and> (fromRow + direction, toCol) \<in> set allSquares
            \<longrightarrow> isPieceMovementValid s (ptype pawn) fromRow fromCol (fromRow + direction) toCol
                = ((\<exists>target. board s (fromRow + direction, toCol) = Some target
                             \<and> pcolor target \<noteq> byColor)
                   \<or> enPassantTarget s = Some (fromRow + direction, toCol)))
       \<and> (\<forall>toCol. \<bar>toCol - fromCol\<bar> = 1 \<and> (fromRow + direction, toCol) \<in> set allSquares
            \<longrightarrow> isSquareAttacked s (fromRow + direction) toCol byColor
                = ((\<exists>target. board s (fromRow + direction, toCol) = Some target
                             \<and> pcolor target \<noteq> byColor)
                   \<or> enPassantTarget s = Some (fromRow + direction, toCol)
                   \<or> list_ex (\<lambda>sq. sq \<noteq> (fromRow, fromCol) \<and>
                        (case board s sq of
                           None \<Rightarrow> False
                         | Some other \<Rightarrow> pcolor other = byColor
                             \<and> isPieceMovementValid s (ptype other) (fst sq) (snd sq)
                                 (fromRow + direction) toCol)) allSquares))"
proof (intro conjI impI allI)
  assume "(fromRow + direction, fromCol) \<in> set allSquares
          \<and> board s (fromRow + direction, fromCol) = None"
  with assms have "isPieceMovementValid s (ptype pawn) fromRow fromCol (fromRow + direction) fromCol"
    by (simp add: isPieceMovementValid.simps isPawnMoveValid_def)
  with assms(1,2,4) show "isSquareAttacked s (fromRow + direction) fromCol byColor"
    using isSquareAttacked_by[of "(fromRow, fromCol)" s pawn byColor] by simp
next
  assume a: "fromRow = startRow \<and> board s (fromRow + 2 * direction, fromCol) = None"
  with assms(1,5,6) show "(fromRow + 2 * direction, fromCol) \<in> set allSquares"
    by (auto simp: set_allSquares split: if_splits)
  from a assms have "isPieceMovementValid s (ptype pawn) fromRow fromCol (fromRow + 2 * direction) fromCol"
    by (cases "byColor = White") (auto simp: isPieceMovementValid.simps isPawnMoveValid_def)
  with assms(1,2,4) show "isSquareAttacked s (fromRow + 2 * direction) fromCol byColor"
    using isSquareAttacked_by[of "(fromRow, fromCol)" s pawn byColor] by simp
next
  fix toCol
  assume "\<bar>toCol - fromCol\<bar> = 1 \<and> (fromRow + direction, toCol) \<in> set allSquares"
  then have "\<bar>toCol - fromCol\<bar> = 1" by blast
  from pawn_reaches_diagonal[OF assms(2,3,4,5) this]
  show "isPieceMovementValid s (ptype pawn) fromRow fromCol (fromRow + direction) toCol
              = ((\<exists>target. board s (fromRow + direction, toCol) = Some target
                           \<and> pcolor target \<noteq> byColor)
                 \<or> enPassantTarget s = Some (fromRow + direction, toCol))" .
next
  fix toCol
  let ?row = "fromRow + direction"
  let ?others = "list_ex (\<lambda>sq. sq \<noteq> (fromRow, fromCol) \<and>
                        (case board s sq of
                           None \<Rightarrow> False
                         | Some other \<Rightarrow> pcolor other = byColor
                             \<and> isPieceMovementValid s (ptype other) (fst sq) (snd sq)
                                 ?row toCol)) allSquares"
  assume "\<bar>toCol - fromCol\<bar> = 1 \<and> (fromRow + direction, toCol) \<in> set allSquares"
  then have diag: "\<bar>toCol - fromCol\<bar> = 1" by blast
  have others: "?others = (\<exists>sq\<in>set allSquares. sq \<noteq> (fromRow, fromCol) \<and>
        (\<exists>other. board s sq = Some other \<and> pcolor other = byColor
           \<and> isPieceMovementValid s (ptype other) (fst sq) (snd sq) ?row toCol))"
    unfolding list_ex_iff by (auto split: option.splits)
  have "isSquareAttacked s ?row toCol byColor
      = (isPieceMovementValid s (ptype pawn) fromRow fromCol ?row toCol \<or> ?others)"
  proof
    assume "isSquareAttacked s ?row toCol byColor"
    then obtain sq piece where sq: "sq \<in> set allSquares" "board s sq = Some piece"
      "pcolor piece = byColor"
      "isPieceMovementValid s (ptype piece) (fst sq) (snd sq) ?row toCol"
      unfolding isSquareAttacked_iff by blast
    show "isPieceMovementValid s (ptype pawn) fromRow fromCol ?row toCol \<or> ?others"
    proof (cases "sq = (fromRow, fromCol)")
      case True
      with sq assms(2) show ?thesis by simp
    next
      case False
      with sq have ?others unfolding others by blast
      then show ?thesis ..
    qed
  next
    assume "isPieceMovementValid s (ptype pawn) fromRow fromCol ?row toCol \<or> ?others"
    then show "isSquareAttacked s ?row toCol byColor"
    proof
      assume "isPieceMovementValid s (ptype pawn) fromRow fromCol ?row toCol"
      with assms(1,2,4) show ?thesis
        using isSquareAttacked_by[of "(fromRow, fromCol)" s pawn byColor] by simp
    next
      assume ?others
      then show ?thesis unfolding others isSquareAttacked_iff by blast
    qed
  qed
  then show "isSquareAttacked s ?row toCol byColor
              = ((\<exists>target. board s (?row, toCol) = Some target \<and> pcolor target \<noteq> byColor)
                 \<or> enPassantTarget s = Some (?row, toCol) \<or> ?others)"
    unfolding pawn_reaches_diagonal[OF assms(2,3,4,5) diag] by blast
qed

theorem pawn_push_counts_as_attack_witness:
  "(1, 0) \<in> set allSquares \<and> (2, 0) \<in> set allSquares \<and> (3, 0) \<in> set allSquares \<and>
   (2, 1) \<in> set allSquares \<and>
   board lonePawn (1, 0) = Some (Piece Pawn Black False) \<and>
   board lonePawn (2, 0) = None \<and> isSquareAttacked lonePawn 2 0 Black \<and>
   board lonePawn (3, 0) = None \<and> isSquareAttacked lonePawn 3 0 Black \<and>
   board lonePawn (2, 1) = None \<and> enPassantTarget lonePawn = None \<and>
   \<not> isPieceMovementValid lonePawn Pawn 1 0 2 1 \<and>
   \<not> isSquareAttacked lonePawn 2 1 Black \<and>
   board pawnFacingKnight (1, 0) = Some (Piece Pawn Black False) \<and>
   board pawnFacingKnight (2, 1) = Some (Piece Knight White True) \<and>
   isPieceMovementValid pawnFacingKnight Pawn 1 0 2 1 \<and>
   isSquareAttacked pawnFacingKnight 2 1 Black \<and>
   board pawnBesideTarget (1, 0) = Some (Piece Pawn Black False) \<and>
   board pawnBesideTarget (2, 1) = None \<and> enPassantTarget pawnBesideTarget = Some (2, 1) \<and>
   isPieceMovementValid pawnBesideTarget Pawn 1 0 2 1 \<and>
   isSquareAttacked pawnBesideTarget 2 1 Black"
proof -
  have sq: "(1, 0) \<in> set allSquares" "(2, 0) \<in> set allSquares" "(3, 0) \<in> set allSquares"
    "(2, 1) \<in> set allSquares"
    by (simp_all add: set_allSquares)
  have a: "board lonePawn (1, 0) = Some (Piece Pawn Black False)"
    "board lonePawn (2, 0) = None" "board lonePawn (3, 0) = None"
    "board lonePawn (2, 1) = None" "enPassantTarget lonePawn = None"
    by code_simp+
  have others: "\<not> list_ex (\<lambda>sq. sq \<noteq> (1, 0) \<and>
      (case board lonePawn sq of
         None \<Rightarrow> False
       | Some other \<Rightarrow> pcolor other = Black
           \<and> isPieceMovementValid lonePawn (ptype other) (fst sq) (snd sq) 2 1)) allSquares"
    by code_simp
  have b: "board pawnFacingKnight (1, 0) = Some (Piece Pawn Black False)"
    "board pawnFacingKnight (2, 1) = Some (Piece Knight White True)"
    by code_simp+
  have c: "board pawnBesideTarget (1, 0) = Some (Piece Pawn Black False)"
    "board pawnBesideTarget (2, 1) = None" "enPassantTarget pawnBesideTarget = Some (2, 1)"
    by code_simp+
  note ta = pawn_push_counts_as_attack
    [of 1 0 lonePawn "Piece Pawn Black False" Black 1 1, OF sq(1) a(1)]
  note tb = pawn_push_counts_as_attack
    [of 1 0 pawnFacingKnight "Piece Pawn Black False" Black 1 1, OF sq(1) b(1)]
  note tc = pawn_push_counts_as_attack
    [of 1 0 pawnBesideTarget "Piece Pawn Black False" Black 1 1, OF sq(1) c(1)]
  from ta sq a have 1: "isSquareAttacked lonePawn 2 0 Black" by simp
  from ta sq a have 2: "isSquareAttacked lonePawn 3 0 Black" by simp
  from ta sq a have 3: "\<not> isPieceMovementValid lonePawn Pawn 1 0 2 1" by simp
  from ta sq a others have 4: "\<not> isSquareAttacked lonePawn 2 1 Black"
    by (simp cong: option.case_cong)
  from tb sq b have 5: "isPieceMovementValid pawnFacingKnight Pawn 1 0 2 1" by simp
  from tb sq b have 6: "isSquareAttacked pawnFacingKnight 2 1 Black" by simp
  from tc sq c have 7: "isPieceMovementValid pawnBesideTarget Pawn 1 0 2 1" by simp
  from tc sq c have 8: "isSquareAttacked pawnBesideTarget 2 1 Black" by simp
  from sq a b c 1 2 3 4 5 6 7 8 show ?thesis by blast
qed

subsection \<open>Checkmate and stalemate\<close>

lemma getAllValidMoves_Nil:
  assumes "\<not> list_ex (\<lambda>sq. case board s sq of
                             None \<Rightarrow> False
                           | Some piece \<Rightarrow>
                               pcolor piece = c \<and> getValidMoves s (fst sq) (snd sq) \<noteq> [])
               allSquares"
  shows "getAllValidMoves s c = []"
  using assms by (auto simp: getAllValidMoves_def list_ex_iff split: option.splits)

text \<open>
  Claim C4.  For every game and colour, \<open>isCheckmate\<close> and \<open>isStalemate\<close> are never both
  true, and when either is true \<open>getAllValidMoves\<close> returns no move for that colour.
\<close>

theorem checkmate_stalemate_exclusive:
  "\<not> (isCheckmate s c \<and> isStalemate s c) \<and>
   (isCheckmate s c \<or> isStalemate s c \<longrightarrow> getAllValidMoves s c = [])"
proof (intro conjI impI)
  show "\<not> (isCheckmate s c \<and> isStalemate s c)"
    by (simp add: isCheckmate_def isStalemate_def)
next
  assume "isCheckmate s c \<or> isStalemate s c"
  then have "\<not> list_ex (\<lambda>sq. case board s sq of
                             None \<Rightarrow> False
                           | Some piece \<Rightarrow>
                               pcolor piece = c \<and> getValidMoves s (fst sq) (snd sq) \<noteq> [])
               allSquares"
    by (auto simp: isCheckmate_def isStalemate_def split: if_splits)
  then show "getAllValidMoves s c = []" by (rule getAllValidMoves_Nil)
qed

text \<open>The position after 1. f3 e5 2. g4 Qh4, white to move.\<close>

definition foolsMate :: game where
  "foolsMate = the (play newGame
     [((6, 5), (5, 5)), ((1, 4), (3, 4)), ((6, 6), (4, 6)), ((0, 3), (4, 7))])"

theorem checkmate_stalemate_exclusive_witness:
  "isCheckmate foolsMate White \<and> \<not> isStalemate foolsMate White \<and>
   getAllValidMoves foolsMate White = []"
proof -
  have 1: "isCheckmate foolsMate White" by code_simp
  from checkmate_stalemate_exclusive[of foolsMate White] 1 show ?thesis by blast
qed

section \<open>Properties of the move validator and the move executor\<close>

subsection \<open>The two-square pawn advance\<close>

text \<open>
  What \<open>isPawnMoveValid\<close> asks of a two-square advance in the pawn's own column: the
  pawn stands on its starting row and the destination is empty.  The square in between
  is not read.
\<close>

lemma two_square_advance_iff:
  assumes "board s (fromRow, fromCol) = Some pawn"
    and "direction = (if pcolor pawn = White then - 1 else 1)"
    and "startRow = (if pcolor pawn = White then 6 else 1)"
  shows "isPawnMoveValid s fromRow fromCol (fromRow + 2 * direction) fromCol
           = (fromRow = startRow \<and> board s (fromRow + 2 * direction, fromCol) = None)"
  using assms by (auto simp: isPawnMoveValid_def)

text \<open>
  The position after 1. Nf3 a6, white to move: the knight stands on f3, directly in front
  of the pawn on f2.
\<close>

definition knightBeforePawn :: game where
  "knightBeforePawn = the (play newGame [((7, 6), (5, 5)), ((1, 0), (2, 0))])"

text \<open>
  Claim C2 says that a two-square advance is rejected when the square in between is
  occupied.  In the position above the pawn on f2 (6, 5) has the knight on f3 (5, 5) in
  front of it and f4 (4, 5) is empty: \<open>isPawnMoveValid\<close> and \<open>isValidMove\<close> both accept
  the advance from (6, 5) to (4, 5).
\<close>

theorem two_square_advance_jumps:
  "currentPlayer knightBeforePawn = White \<and>
   board knightBeforePawn (6, 5) = Some (Piece Pawn White False) \<and>
   board knightBeforePawn (5, 5) = Some (Piece Knight White True) \<and>
   board knightBeforePawn (4, 5) = None \<and>
   isPawnMoveValid knightBeforePawn 6 5 4 5 \<and>
   isValidMove knightBeforePawn 6 5 4 5"
proof -
  have "let s = knightBeforePawn in
    currentPlayer s = White \<and>
    board s (6, 5) = Some (Piece Pawn White False) \<and>
    board s (5, 5) = Some (Piece Knight White True) \<and>
    board s (4, 5) = None \<and>
    isPawnMoveValid s 6 5 4 5 \<and>
    isValidMove s 6 5 4 5"
    by code_simp
  then show ?thesis by (simp only: Let_def)
qed

subsection \<open>King safety of an en-passant capture\<close>

text \<open>
  A game of fifteen moves, each accepted by \<open>isValidMove\<close>: 1. c3 e5 2. Qa4 c5 3. h3 c4
  4. h4 Ke7 5. h5 Ke6 6. a3 Kf5 7. g3 Ke4 8. b4.  Black is to move; the white queen on a4,
  the white pawn on b4, the black pawn on c4 and the black king on e4 stand on one rank,
  and the en-passant target is b3 (5, 1).
\<close>

definition enPassantPin :: game where
  "enPassantPin = the (play newGame
     [((6, 2), (5, 2)), ((1, 4), (3, 4)),
      ((7, 3), (4, 0)), ((1, 2), (3, 2)),
      ((6, 7), (5, 7)), ((3, 2), (4, 2)),
      ((5, 7), (4, 7)), ((0, 4), (1, 4)),
      ((4, 7), (3, 7)), ((1, 4), (2, 4)),
      ((6, 0), (5, 0)), ((2, 4), (3, 5)),
      ((6, 6), (5, 6)), ((3, 5), (4, 4)),
      ((6, 1), (4, 1))])"

text \<open>
  Claim C1 says that a move accepted by \<open>isValidMove\<close>, once applied with the removal of
  the passed pawn, leaves the mover's king unattacked.  In the position above black is
  not in check and \<open>isValidMove\<close> accepts the en-passant capture c4 takes b3, from (4, 2)
  to (5, 1): \<open>wouldLeaveKingInCheck\<close> moves the capturing pawn only, so the white pawn on
  b4 still shields the king.  \<open>makeMove\<close> removes that pawn: the rank between the queen
  and the king is empty and \<open>isInCheck\<close> for black is true on the resulting board.
\<close>

theorem en_passant_exposes_king:
  "currentPlayer enPassantPin = Black \<and>
   enPassantTarget enPassantPin = Some (5, 1) \<and>
   board enPassantPin (4, 0) = Some (Piece Queen White True) \<and>
   board enPassantPin (4, 1) = Some (Piece Pawn White True) \<and>
   board enPassantPin (4, 2) = Some (Piece Pawn Black True) \<and>
   board enPassantPin (4, 3) = None \<and>
   findKing enPassantPin Black = Some (4, 4) \<and>
   isInCheck enPassantPin Black = False \<and>
   isValidMove enPassantPin 4 2 5 1 \<and>
   map_option (\<lambda>s'. (board s' (4, 1), board s' (4, 2), board s' (4, 3), board s' (5, 1),
                       findKing s' Black, isInCheck s' Black))
     (makeMove enPassantPin 4 2 5 1)
   = Some (None, None, None, Some (Piece Pawn Black True), Some (4, 4), True)"
proof -
  have "let s = enPassantPin in
   currentPlayer s = Black \<and>
   enPassantTarget s = Some (5, 1) \<and>
   board s (4, 0) = Some (Piece Queen White True) \<and>
   board s (4, 1) = Some (Piece Pawn White True) \<and>
   board s (4, 2) = Some (Piece Pawn Black True) \<and>
   board s (4, 3) = None \<and>
   findKing s Black = Some (4, 4) \<and>
   isInCheck s Black = False \<and>
   isValidMove s 4 2 5 1 \<and>
   map_option (\<lambda>s'. (board s' (4, 1), board s' (4, 2), board s' (4, 3), board s' (5, 1),
                       findKing s' Black, isInCheck s' Black))
     (makeMove s 4 2 5 1)
   = Some (None, None, None, Some (Piece Pawn Black True), Some (4, 4), True)"
    by code_simp
  then show ?thesis by (simp only: Let_def)
qed


subsection \<open>The en-passant target after \<open>makeMove\<close>\<close>

lemma capturePiece_fields [simp]:
  "board (capturePiece s p) = board s"
  "currentPlayer (capturePiece s p) = currentPlayer s"
  "moveHistory (capturePiece s p) = moveHistory s"
  "enPassantTarget (capturePiece s p) = enPassantTarget s"
  "castlingRights (capturePiece s p) = castlingRights s"
  by (simp_all add: capturePiece_def)

lemma handleSpecialMoves_fields:
  assumes "handleSpecialMoves s fromRow fromCol toRow toCol = Some s1"
  shows "moveHistory s1 = moveHistory s" "enPassantTarget s1 = enPassantTarget s"
    "currentPlayer s1 = currentPlayer s" "castlingRights s1 = castlingRights s"
  using assms
  by (auto simp: handleSpecialMoves_def Let_def split: option.splits if_splits)

lemma updateCastlingRights_fields [simp]:
  "board (updateCastlingRights s p r c) = board s"
  "currentPlayer (updateCastlingRights s p r c) = currentPlayer s"
  "moveHistory (updateCastlingRights s p r c) = moveHistory s"
  "enPassantTarget (updateCastlingRights s p r c) = enPassantTarget s"
  "capturedPieces (updateCastlingRights s p r c) = capturedPieces s"
  "scores (updateCastlingRights s p r c) = scores s"
  by (simp_all add: updateCastlingRights_def)

lemma updateEnPassantTarget_fields [simp]:
  "board (updateEnPassantTarget s p fr fc tr tc) = board s"
  "currentPlayer (updateEnPassantTarget s p fr fc tr tc) = currentPlayer s"
  "moveHistory (updateEnPassantTarget s p fr fc tr tc) = moveHistory s"
  "castlingRights (updateEnPassantTarget s p fr fc tr tc) = castlingRights s"
  "capturedPieces (updateEnPassantTarget s p fr fc tr tc) = capturedPieces s"
  "scores (updateEnPassantTarget s p fr fc tr tc) = scores s"
  "enPassantTarget (updateEnPassantTarget s p fr fc tr tc) =
     (if ptype p = Pawn \<and> \<bar>tr - fr\<bar> = 2 then Some ((fr + tr) div 2, tc) else None)"
  by (simp_all add: updateEnPassantTarget_def Let_def)

lemma valid_two_rank_pawn_move:
  assumes "isValidMove s fromRow fromCol toRow toCol"
    and "board s (fromRow, fromCol) = Some piece" "ptype piece = Pawn" "\<bar>toRow - fromRow\<bar> = 2"
  shows "toCol = fromCol \<and> toRow = fromRow + 2 * (if pcolor piece = White then - 1 else 1)
         \<and> (fromRow + toRow) div 2 = fromRow + (if pcolor piece = White then - 1 else 1)"
proof -
  from assms(1,2,3) have "isPawnMoveValid s fromRow fromCol toRow toCol"
    by (auto simp: isValidMove_def isPieceMovementValid.simps split: if_splits)
  with assms(2,4) show ?thesis
    by (auto simp: isPawnMoveValid_def Let_def split: if_splits)
qed

text \<open>
  Claim C6.  Whenever \<open>makeMove\<close> returns, the en-passant target of the new state is set
  exactly when the piece moved is a pawn and the move spans two rows, to the square in the
  middle row and the destination column; in every other case it is \<open>None\<close>.  The record
  appended to the move history carries the target in effect before the move.  For a move
  that \<open>isValidMove\<close> accepted, the pawn stayed in its column and the target is the
  square it skipped.
\<close>

theorem makeMove_enPassantTarget:
  assumes "makeMove s fromRow fromCol toRow toCol = Some s'"
  shows "\<exists>piece. board s (fromRow, fromCol) = Some piece \<and>
     enPassantTarget s' =
       (if ptype piece = Pawn \<and> \<bar>toRow - fromRow\<bar> = 2
        then Some ((fromRow + toRow) div 2, toCol) else None) \<and>
     moveHistory s' = moveHistory s @
       [\<lparr>mfrom = (fromRow, fromCol), mto = (toRow, toCol), mpiece = ptype piece,
         mcaptured = board s (toRow, toCol), menPassantTarget = enPassantTarget s\<rparr>] \<and>
     (isValidMove s fromRow fromCol toRow toCol \<and> ptype piece = Pawn \<and> \<bar>toRow - fromRow\<bar> = 2
        \<longrightarrow> toCol = fromCol \<and>
            (fromRow + toRow) div 2 = fromRow + (if pcolor piece = White then - 1 else 1))"
proof -
  from assms obtain piece where piece: "board s (fromRow, fromCol) = Some piece"
    by (auto simp: makeMove_def split: if_splits option.splits)
  from assms piece obtain s1 where s1: "handleSpecialMoves s fromRow fromCol toRow toCol = Some s1"
    by (auto simp: makeMove_def Let_def split: if_splits option.splits)
  note f = handleSpecialMoves_fields[OF s1]
  from assms piece s1 have 1: "enPassantTarget s' =
       (if ptype piece = Pawn \<and> \<bar>toRow - fromRow\<bar> = 2
        then Some ((fromRow + toRow) div 2, toCol) else None)"
    by (auto simp: makeMove_def Let_def split: if_splits option.splits)
  from assms piece s1 f have 2: "moveHistory s' = moveHistory s @
       [\<lparr>mfrom = (fromRow, fromCol), mto = (toRow, toCol), mpiece = ptype piece,
         mcaptured = board s (toRow, toCol), menPassantTarget = enPassantTarget s\<rparr>]"
    by (auto simp: makeMove_def Let_def split: if_splits option.splits)
  from valid_two_rank_pawn_move[OF _ piece] 
  have 3: "isValidMove s fromRow fromCol toRow toCol \<and> ptype piece = Pawn \<and> \<bar>toRow - fromRow\<bar> = 2
        \<longrightarrow> toCol = fromCol \<and>
            (fromRow + toRow) div 2 = fromRow + (if pcolor piece = White then - 1 else 1)"
    by blast
  from piece 1 2 3 show ?thesis by blast
qed

theorem makeMove_enPassantTarget_witness:
  "makeMove newGame 6 4 4 4 \<noteq> None \<and>
   enPassantTarget (the (makeMove newGame 6 4 4 4)) = Some (5, 4) \<and>
   moveHistory (the (makeMove newGame 6 4 4 4)) =
     [\<lparr>mfrom = (6, 4), mto = (4, 4), mpiece = Pawn, mcaptured = None, menPassantTarget = None\<rparr>] \<and>
   makeMove (the (makeMove newGame 6 4 4 4)) 7 6 5 5 \<noteq> None \<and>
   enPassantTarget (the (makeMove (the (makeMove newGame 6 4 4 4)) 7 6 5 5)) = None \<and>
   moveHistory (the (makeMove (the (makeMove newGame 6 4 4 4)) 7 6 5 5)) =
     [\<lparr>mfrom = (6, 4), mto = (4, 4), mpiece = Pawn, mcaptured = None, menPassantTarget = None\<rparr>,
      \<lparr>mfrom = (7, 6), mto = (5, 5), mpiece = Knight, mcaptured = None,
        menPassantTarget = Some (5, 4)\<rparr>]"
proof -
  let ?s1 = "the (makeMove newGame 6 4 4 4)"
  let ?s2 = "the (makeMove ?s1 7 6 5 5)"
  have a: "makeMove newGame 6 4 4 4 \<noteq> None" by code_simp
  then have a': "makeMove newGame 6 4 4 4 = Some ?s1" by simp
  have p1: "board newGame (6, 4) = Some (Piece Pawn White False)"
    "board newGame (4, 4) = None" "enPassantTarget newGame = None" "moveHistory newGame = []"
    by code_simp+
  from makeMove_enPassantTarget[OF a'] p1
  have 1: "enPassantTarget ?s1 = Some (5, 4)"
    "moveHistory ?s1 =
      [\<lparr>mfrom = (6, 4), mto = (4, 4), mpiece = Pawn, mcaptured = None, menPassantTarget = None\<rparr>]"
    by auto
  have b: "makeMove ?s1 7 6 5 5 \<noteq> None" by code_simp
  then have b': "makeMove ?s1 7 6 5 5 = Some ?s2" by simp
  have p2: "board ?s1 (7, 6) = Some (Piece Knight White False)" "board ?s1 (5, 5) = None"
    by code_simp+
  from makeMove_enPassantTarget[OF b'] p2 1
  have 2: "enPassantTarget ?s2 = None"
    "moveHistory ?s2 =
     [\<lparr>mfrom = (6, 4), mto = (4, 4), mpiece = Pawn, mcaptured = None, menPassantTarget = None\<rparr>,
      \<lparr>mfrom = (7, 6), mto = (5, 5), mpiece = Knight, mcaptured = None,
        menPassantTarget = Some (5, 4)\<rparr>]"
    by auto
  from a b 1 2 show ?thesis by blast
qed


subsection \<open>Scores and captured pieces\<close>

text \<open>
  The states the game can be in: the initial game, and what \<open>makeMove\<close>, \<open>switchPlayer\<close>
  and \<open>handlePawnPromotion\<close> make of a state (for any squares, legal move or not).
\<close>

inductive reachable :: "game \<Rightarrow> bool" where
  start: "reachable newGame"
| move: "reachable s \<Longrightarrow> makeMove s fromRow fromCol toRow toCol = Some s' \<Longrightarrow> reachable s'"
| switch: "reachable s \<Longrightarrow> reachable (switchPlayer s)"
| promote: "reachable s \<Longrightarrow> handlePawnPromotion s row col pieceType = Some s' \<Longrightarrow> reachable s'"

definition scoreInvariant :: "game \<Rightarrow> bool" where
  "scoreInvariant s =
    (\<forall>c. scores s c = sum_list (map (\<lambda>p. pieceValues (ptype p)) (capturedPieces s c))
        \<and> (\<forall>p\<in>set (capturedPieces s c). pcolor p = opponent c))"

lemma scoreInvariant_capturePiece:
  assumes "scoreInvariant s"
  shows "scoreInvariant (capturePiece s p)"
  using assms by (auto simp: scoreInvariant_def capturePiece_def)

lemma scoreInvariant_fields:
  assumes "scoreInvariant s" "scores s' = scores s" "capturedPieces s' = capturedPieces s"
  shows "scoreInvariant s'"
  using assms by (simp add: scoreInvariant_def)

lemma scoreInvariant_handleSpecialMoves:
  assumes "scoreInvariant s" "handleSpecialMoves s fromRow fromCol toRow toCol = Some s1"
  shows "scoreInvariant s1"
proof -
  from assms(2) consider
      (same) "scores s1 = scores s" "capturedPieces s1 = capturedPieces s"
    | (taken) s0 p where "scores s0 = scores s" "capturedPieces s0 = capturedPieces s"
        "scores s1 = scores (capturePiece s0 p)"
        "capturedPieces s1 = capturedPieces (capturePiece s0 p)"
    by (fastforce simp: handleSpecialMoves_def Let_def split: option.splits if_splits)
  then show ?thesis
  proof cases
    case same
    with assms(1) show ?thesis by (rule scoreInvariant_fields)
  next
    case taken
    from assms(1) taken(1,2) have "scoreInvariant s0" by (rule scoreInvariant_fields)
    then have "scoreInvariant (capturePiece s0 p)" by (rule scoreInvariant_capturePiece)
    then show ?thesis using taken(3,4) by (rule scoreInvariant_fields)
  qed
qed

lemma scoreInvariant_makeMove:
  assumes "scoreInvariant s" "makeMove s fromRow fromCol toRow toCol = Some s'"
  shows "scoreInvariant s'"
proof -
  from assms(2) obtain piece s1 where
    s1: "handleSpecialMoves s fromRow fromCol toRow toCol = Some s1"
    and s': "scores s' = scores (case board s (toRow, toCol) of None \<Rightarrow> s1 | Some cp \<Rightarrow> capturePiece s1 cp)"
      "capturedPieces s' = capturedPieces (case board s (toRow, toCol) of None \<Rightarrow> s1 | Some cp \<Rightarrow> capturePiece s1 cp)"
    by (auto simp: makeMove_def Let_def split: option.splits if_splits)
  from assms(1) s1 have "scoreInvariant s1" by (rule scoreInvariant_handleSpecialMoves)
  then have "scoreInvariant (case board s (toRow, toCol) of None \<Rightarrow> s1 | Some cp \<Rightarrow> capturePiece s1 cp)"
    by (auto split: option.splits intro: scoreInvariant_capturePiece)
  then show ?thesis using s' by (rule scoreInvariant_fields)
qed

lemma scoreInvariant_reachable:
  assumes "reachable s"
  shows "scoreInvariant s"
  using assms
proof induction
  case start
  show ?case by (simp add: scoreInvariant_def newGame_def)
next
  case (move s fromRow fromCol toRow toCol s')
  then show ?case by (auto intro: scoreInvariant_makeMove)
next
  case (switch s)
  then show ?case by (simp add: scoreInvariant_def switchPlayer_def)
next
  case (promote s row col pieceType s')
  then show ?case
    by (auto simp: scoreInvariant_def handlePawnPromotion_def split: option.splits)
qed

lemma reachable_play:
  assumes "reachable s" "play s ms = Some s'"
  shows "reachable s'"
  using assms
proof (induction ms arbitrary: s)
  case Nil
  then show ?case by simp
next
  case (Cons m ms)
  from Cons.prems(2) obtain s1 where
    s1: "makeMove s (fst (fst m)) (snd (fst m)) (fst (snd m)) (snd (snd m)) = Some s1"
    and rest: "play (switchPlayer s1) ms = Some s'"
    by (auto split: if_splits option.splits)
  from Cons.prems(1) s1 have "reachable s1" by (rule reachable.move)
  then have "reachable (switchPlayer s1)" by (rule reachable.switch)
  then show ?case using rest by (rule Cons.IH)
qed

text \<open>The position after 1. e4 d5 2. exd5: white has taken a black pawn.\<close>

definition pawnTaken :: game where
  "pawnTaken = the (play newGame [((6, 4), (4, 4)), ((1, 3), (3, 3)), ((4, 4), (3, 3))])"

lemma pawnTaken_facts:
  "play newGame [((6, 4), (4, 4)), ((1, 3), (3, 3)), ((4, 4), (3, 3))] \<noteq> None \<and>
   capturedPieces pawnTaken White = [Piece Pawn Black True] \<and>
   capturedPieces pawnTaken Black = [] \<and>
   scores pawnTaken White = 1 \<and> scores pawnTaken Black = 0"
proof -
  have "let r = play newGame [((6, 4), (4, 4)), ((1, 3), (3, 3)), ((4, 4), (3, 3))] in
    r \<noteq> None \<and>
    capturedPieces (the r) White = [Piece Pawn Black True] \<and>
    capturedPieces (the r) Black = [] \<and>
    scores (the r) White = 1 \<and> scores (the r) Black = 0"
    by code_simp
  then show ?thesis unfolding Let_def pawnTaken_def by blast
qed

lemma reachable_pawnTaken: "reachable pawnTaken"
proof -
  from pawnTaken_facts have
    "play newGame [((6, 4), (4, 4)), ((1, 3), (3, 3)), ((4, 4), (3, 3))] = Some pawnTaken"
    by (auto simp: pawnTaken_def)
  with reachable.start show ?thesis by (rule reachable_play)
qed

text \<open>
  Claim C7 as stated has a captured piece recorded under the colour that lost it.  After
  1. e4 d5 2. exd5 the black pawn is in \<open>capturedPieces\<close> of white, the colour that took
  it, and \<open>capturedPieces\<close> of black is empty.
\<close>

theorem captured_under_owner_counterexample:
  "reachable pawnTaken \<and> Piece Pawn Black True \<in> set (capturedPieces pawnTaken White) \<and>
   pcolor (Piece Pawn Black True) \<noteq> White \<and> capturedPieces pawnTaken Black = []"
  using reachable_pawnTaken pawnTaken_facts by simp

text \<open>
  Claim C7, amended.  In every reachable state and for each colour \<open>c\<close>, the score of \<open>c\<close>
  is the sum of the values of the pieces in \<open>capturedPieces\<close> of \<open>c\<close>, and every piece in
  that list belongs to the opponent of \<open>c\<close>: a captured piece is recorded under the colour
  that captured it.
\<close>

theorem score_is_value_of_captures:
  assumes "reachable s"
  shows "scores s c = sum_list (map (\<lambda>p. pieceValues (ptype p)) (capturedPieces s c))
       \<and> (\<forall>p\<in>set (capturedPieces s c). pcolor p = opponent c)"
  using scoreInvariant_reachable[OF assms] by (simp add: scoreInvariant_def)

theorem score_is_value_of_captures_witness:
  "reachable pawnTaken \<and> capturedPieces pawnTaken White = [Piece Pawn Black True] \<and>
   scores pawnTaken White = sum_list (map (\<lambda>p. pieceValues (ptype p)) (capturedPieces pawnTaken White)) \<and>
   scores pawnTaken White = 1 \<and>
   list_all (\<lambda>p. pcolor p = opponent White) (capturedPieces pawnTaken White)"
  using score_is_value_of_captures[OF reachable_pawnTaken, of White] pawnTaken_facts reachable_pawnTaken
  by (simp add: list_all_iff)

section \<open>Bot Move Selector\<close>

text \<open>
  \<open>getHardMove\<close> (lines 902-955).  \<open>capturedValue\<close> is \<open>this.pieceValues[cap.type]\<close> for
  the piece \<open>cap\<close> on the destination of a move.  \<open>getHardMove_scan\<close> is the loop over
  \<open>moves\<close>: a move onto an occupied square is pushed on \<open>captures\<close>; any other move is
  tried on the board (\<open>board[to] = piece; board[from] = null\<close>) and pushed on \<open>checks\<close>
  when \<open>isInCheck('white')\<close> holds there.  \<open>captures.sort((a, b) => value b - value a)\<close>
  sorts by descending value and keeps the order of equal elements (\<open>Array.prototype.sort\<close>
  is stable), which is \<open>sort_key\<close> on the negated value.  \<open>random n\<close> stands for
  \<open>Math.floor(Math.random() * n)\<close>; \<open>None\<close> is the \<open>undefined\<close> read past the end of
  \<open>moves\<close>.
\<close>

definition capturedValue :: "game \<Rightarrow> move \<Rightarrow> int" where
  "capturedValue s m = (case board s (snd m) of None \<Rightarrow> 0 | Some cap \<Rightarrow> pieceValues (ptype cap))"

fun getHardMove_scan :: "game \<Rightarrow> move list \<Rightarrow> move list \<Rightarrow> move list \<Rightarrow> move list \<times> move list" where
  "getHardMove_scan s [] captures checks = (captures, checks)"
| "getHardMove_scan s (m # moves) captures checks =
    (if board s (snd m) \<noteq> None then getHardMove_scan s moves (captures @ [m]) checks
     else if isInCheck (s\<lparr>board := (board s)(snd m := board s (fst m), fst m := None)\<rparr>) White
       then getHardMove_scan s moves captures (checks @ [m])
     else getHardMove_scan s moves captures checks)"

definition getHardMove :: "(nat \<Rightarrow> nat) \<Rightarrow> game \<Rightarrow> move list \<Rightarrow> move option" where
  "getHardMove random s moves =
    (let (captures, checks) = getHardMove_scan s moves [] []
     in if length captures > 0 then
          Some (hd (sort_key (\<lambda>m. - capturedValue s m) captures))
        else if length checks > 0 then Some (hd checks)
        else if random (length moves) < length moves then Some (moves ! random (length moves))
        else None)"

subsection \<open>The capture chosen at hard difficulty\<close>

lemma getHardMove_scan_captures:
  "fst (getHardMove_scan s moves captures checks)
     = captures @ filter (\<lambda>m. board s (snd m) \<noteq> None) moves"
  by (induction moves arbitrary: captures checks) auto

lemma hd_insort_key:
  "hd (insort_key f x ys) = (if ys = [] \<or> f x \<le> f (hd ys) then x else hd ys)"
  by (cases ys) auto

lemma sort_key_Nil_iff: "sort_key f xs = [] \<longleftrightarrow> xs = []"
  by (metis length_0_conv length_sort)

lemma hd_sort_key_first_min:
  assumes "xs \<noteq> []"
  shows "\<exists>i<length xs. hd (sort_key f xs) = xs ! i
           \<and> (\<forall>j<length xs. f (xs ! i) \<le> f (xs ! j))
           \<and> (\<forall>j<i. f (xs ! i) < f (xs ! j))"
  using assms
proof (induction xs)
  case Nil
  then show ?case by simp
next
  case (Cons x xs)
  show ?case
  proof (cases "xs = []")
    case True
    then show ?thesis by simp
  next
    case False
    from Cons.IH[OF False] obtain i where i: "i < length xs" "hd (sort_key f xs) = xs ! i"
      "\<forall>j<length xs. f (xs ! i) \<le> f (xs ! j)" "\<forall>j<i. f (xs ! i) < f (xs ! j)"
      by blast
    have hd: "hd (sort_key f (x # xs)) = (if f x \<le> f (xs ! i) then x else xs ! i)"
      using False i(2) by (simp add: hd_insort_key sort_key_Nil_iff)
    show ?thesis
    proof (cases "f x \<le> f (xs ! i)")
      case True
      have "\<forall>j<length (x # xs). f ((x # xs) ! 0) \<le> f ((x # xs) ! j)"
      proof (intro allI impI)
        fix j assume "j < length (x # xs)"
        then show "f ((x # xs) ! 0) \<le> f ((x # xs) ! j)"
          using True i(3) by (cases j) (auto intro: order_trans)
      qed
      with hd True show ?thesis by (intro exI[of _ 0]) simp
    next
      case nle: False
      have a: "\<forall>j<length (x # xs). f ((x # xs) ! Suc i) \<le> f ((x # xs) ! j)"
      proof (intro allI impI)
        fix j assume "j < length (x # xs)"
        then show "f ((x # xs) ! Suc i) \<le> f ((x # xs) ! j)"
          using nle i(3) by (cases j) auto
      qed
      have b: "\<forall>j<Suc i. f ((x # xs) ! Suc i) < f ((x # xs) ! j)"
      proof (intro allI impI)
        fix j assume "j < Suc i"
        then show "f ((x # xs) ! Suc i) < f ((x # xs) ! j)"
          using nle i(4) by (cases j) auto
      qed
      from hd nle i(1) a b show ?thesis by (intro exI[of _ "Suc i"]) simp
    qed
  qed
qed

lemma filter_nth_source:
  assumes "i < length (filter P xs)"
  shows "\<exists>k<length xs. xs ! k = filter P xs ! i \<and>
           (\<forall>j<k. P (xs ! j) \<longrightarrow> (\<exists>i'<i. filter P xs ! i' = xs ! j))"
  using assms
proof (induction xs arbitrary: i)
  case Nil
  then show ?case by simp
next
  case (Cons x xs)
  show ?case
  proof (cases "P x")
    case True
    show ?thesis
    proof (cases i)
      case 0
      with True show ?thesis by (intro exI[of _ 0]) simp
    next
      case (Suc n)
      with Cons.prems True have "n < length (filter P xs)" by simp
      from Cons.IH[OF this] obtain k where k: "k < length xs" "xs ! k = filter P xs ! n"
        "\<forall>j<k. P (xs ! j) \<longrightarrow> (\<exists>i'<n. filter P xs ! i' = xs ! j)" by blast
      have "\<forall>j<Suc k. P ((x # xs) ! j) \<longrightarrow> (\<exists>i'<i. filter P (x # xs) ! i' = (x # xs) ! j)"
      proof (intro allI impI)
        fix j assume j: "j < Suc k" "P ((x # xs) ! j)"
        show "\<exists>i'<i. filter P (x # xs) ! i' = (x # xs) ! j"
        proof (cases j)
          case 0
          with True Suc show ?thesis by (intro exI[of _ 0]) simp
        next
          case (Suc j')
          with j k(3) obtain i' where "i' < n" "filter P xs ! i' = xs ! j'" by auto
          with True Suc \<open>i = Suc n\<close> show ?thesis by (intro exI[of _ "Suc i'"]) simp
        qed
      qed
      with k(1,2) True Suc show ?thesis by (intro exI[of _ "Suc k"]) simp
    qed
  next
    case False
    with Cons.prems have "i < length (filter P xs)" by simp
    from Cons.IH[OF this] obtain k where k: "k < length xs" "xs ! k = filter P xs ! i"
      "\<forall>j<k. P (xs ! j) \<longrightarrow> (\<exists>i'<i. filter P xs ! i' = xs ! j)" by blast
    have "\<forall>j<Suc k. P ((x # xs) ! j) \<longrightarrow> (\<exists>i'<i. filter P (x # xs) ! i' = (x # xs) ! j)"
    proof (intro allI impI)
      fix j assume j: "j < Suc k" "P ((x # xs) ! j)"
      show "\<exists>i'<i. filter P (x # xs) ! i' = (x # xs) ! j"
      proof (cases j)
        case 0
        with j False show ?thesis by simp
      next
        case (Suc j')
        with j k(3) False show ?thesis by auto
      qed
    qed
    with k(1,2) False show ?thesis by (intro exI[of _ "Suc k"]) simp
  qed
qed


text \<open>
  Claim C8.  When the candidate list holds at least one capture (a move onto an occupied
  square), \<open>getHardMove\<close> returns the capture \<open>moves ! i\<close> whose captured piece has the
  highest value of all captures in the list, and every capture before it in the list has
  a strictly smaller value (ties go to the first found); the random source is not
  consulted, so every call on the same state and list returns the same move.  The values
  are those of \<open>pieceValues\<close>: pawn 1, knight 3, bishop 3, rook 5, queen 9.
\<close>

theorem getHardMove_best_capture:
  assumes "list_ex (\<lambda>m. board s (snd m) \<noteq> None) moves"
  shows "\<exists>i<length moves.
     getHardMove random s moves = Some (moves ! i) \<and>
     board s (snd (moves ! i)) \<noteq> None \<and>
     (\<forall>j<length moves. board s (snd (moves ! j)) \<noteq> None
         \<longrightarrow> capturedValue s (moves ! j) \<le> capturedValue s (moves ! i)) \<and>
     (\<forall>j<i. board s (snd (moves ! j)) \<noteq> None
         \<longrightarrow> capturedValue s (moves ! j) < capturedValue s (moves ! i)) \<and>
     getHardMove random' s moves = getHardMove random s moves"
proof -
  let ?P = "\<lambda>m. board s (snd m) \<noteq> None"
  let ?caps = "filter ?P moves"
  let ?f = "\<lambda>m. - capturedValue s m"
  from assms have ne: "?caps \<noteq> []" by (auto simp: list_ex_iff filter_empty_conv)
  have scan: "fst (getHardMove_scan s moves [] []) = ?caps"
    by (simp add: getHardMove_scan_captures)
  have res: "getHardMove r s moves = Some (hd (sort_key ?f ?caps))" for r
    using ne scan by (simp add: getHardMove_def Let_def case_prod_beta)
  from hd_sort_key_first_min[OF ne, of ?f] obtain i where i: "i < length ?caps"
    "hd (sort_key ?f ?caps) = ?caps ! i"
    "\<forall>j<length ?caps. ?f (?caps ! i) \<le> ?f (?caps ! j)"
    "\<forall>j<i. ?f (?caps ! i) < ?f (?caps ! j)" by blast
  from filter_nth_source[OF i(1)] obtain k where k: "k < length moves" "moves ! k = ?caps ! i"
    "\<forall>j<k. ?P (moves ! j) \<longrightarrow> (\<exists>i'<i. ?caps ! i' = moves ! j)" by blast
  from i(1) have "?caps ! i \<in> set ?caps" by (rule nth_mem)
  with k(2) have cap: "?P (moves ! k)" by simp
  have best: "\<forall>j<length moves. ?P (moves ! j)
      \<longrightarrow> capturedValue s (moves ! j) \<le> capturedValue s (moves ! k)"
  proof (intro allI impI)
    fix j assume "j < length moves" "?P (moves ! j)"
    then have "moves ! j \<in> set ?caps" by simp
    then obtain j' where "j' < length ?caps" "?caps ! j' = moves ! j"
      unfolding in_set_conv_nth by blast
    with i(3) k(2) show "capturedValue s (moves ! j) \<le> capturedValue s (moves ! k)"
      by (metis neg_le_iff_le)
  qed
  have first: "\<forall>j<k. ?P (moves ! j)
      \<longrightarrow> capturedValue s (moves ! j) < capturedValue s (moves ! k)"
  proof (intro allI impI)
    fix j assume "j < k" "?P (moves ! j)"
    with k(3) obtain i' where "i' < i" "?caps ! i' = moves ! j" by blast
    with i(4) k(2) show "capturedValue s (moves ! j) < capturedValue s (moves ! k)"
      by (metis neg_less_iff_less)
  qed
  from res[of random] res[of random'] i(2) k(1,2) cap best first show ?thesis
    by (intro exI[of _ k]) simp
qed

text \<open>
  The position after 1. e4 Nf6 2. Qg4, black to move: the knight on f6 can take the pawn
  on e4 and the queen on g4; the scan finds the pawn capture first.
\<close>

definition queenEnPrise :: game where
  "queenEnPrise = the (play newGame [((6, 4), (4, 4)), ((0, 6), (2, 5)), ((7, 3), (4, 6))])"

lemma queenEnPrise_facts:
  "list_ex (\<lambda>m. board queenEnPrise (snd m) \<noteq> None) (getAllValidMoves queenEnPrise Black) \<and>
   filter (\<lambda>m. board queenEnPrise (snd m) \<noteq> None) (getAllValidMoves queenEnPrise Black)
     = [((2, 5), (4, 4)), ((2, 5), (4, 6))] \<and>
   board queenEnPrise (4, 4) = Some (Piece Pawn White True) \<and>
   board queenEnPrise (4, 6) = Some (Piece Queen White True) \<and>
   getHardMove (\<lambda>n. 0) queenEnPrise (getAllValidMoves queenEnPrise Black) = Some ((2, 5), (4, 6))"
proof -
  have "let s = queenEnPrise; ms = getAllValidMoves s Black in
   list_ex (\<lambda>m. board s (snd m) \<noteq> None) ms \<and>
   filter (\<lambda>m. board s (snd m) \<noteq> None) ms = [((2, 5), (4, 4)), ((2, 5), (4, 6))] \<and>
   board s (4, 4) = Some (Piece Pawn White True) \<and>
   board s (4, 6) = Some (Piece Queen White True) \<and>
   getHardMove (\<lambda>n. 0) s ms = Some ((2, 5), (4, 6))"
    by code_simp
  then show ?thesis unfolding Let_def by blast
qed

theorem getHardMove_best_capture_witness:
  "list_ex (\<lambda>m. board queenEnPrise (snd m) \<noteq> None) (getAllValidMoves queenEnPrise Black) \<and>
   filter (\<lambda>m. board queenEnPrise (snd m) \<noteq> None) (getAllValidMoves queenEnPrise Black)
     = [((2, 5), (4, 4)), ((2, 5), (4, 6))] \<and>
   board queenEnPrise (4, 4) = Some (Piece Pawn White True) \<and>
   board queenEnPrise (4, 6) = Some (Piece Queen White True) \<and>
   getHardMove (\<lambda>n. 0) queenEnPrise (getAllValidMoves queenEnPrise Black) = Some ((2, 5), (4, 6)) \<and>
   getHardMove (\<lambda>n. n - 1) queenEnPrise (getAllValidMoves queenEnPrise Black) = Some ((2, 5), (4, 6))"
proof -
  from queenEnPrise_facts
  have c: "list_ex (\<lambda>m. board queenEnPrise (snd m) \<noteq> None) (getAllValidMoves queenEnPrise Black)"
    by blast
  from getHardMove_best_capture[OF c, of "\<lambda>n. 0" "\<lambda>n. n - 1"]
  have "getHardMove (\<lambda>n. n - 1) queenEnPrise (getAllValidMoves queenEnPrise Black)
      = getHardMove (\<lambda>n. 0) queenEnPrise (getAllValidMoves queenEnPrise Black)" by blast
  with queenEnPrise_facts show ?thesis by simp
qed

section \<open>The validator with its board writes\<close>

text \<open>
  \<open>wouldBeInCheck\<close> and \<open>wouldLeaveKingInCheck\<close> write on \<open>this.board\<close> and write the old
  content back before they return.  The functions of the sections above ask their
  questions on an updated copy of the state; the relations below follow the JavaScript
  statement by statement instead and pass the game state through every call:
  \<open>exec_f s args (result, s')\<close> says that the call \<open>f(args)\<close> on the game \<open>s\<close> returns
  \<open>result\<close> and leaves the game \<open>s'\<close>.  There is one rule for each path through a function
  body.  \<open>isPawnMoveValid\<close>, \<open>isRookMoveValid\<close>, \<open>isBishopMoveValid\<close> and \<open>findKing\<close> contain
  no assignment and no call of a function that has one; their rules return the state they
  were given.  \<open>castleReady\<close> is the run of tests at the head of \<open>canCastle\<close> (lines
  385-404), before its first call.  \<open>exec_scan\<close> is the double loop of \<open>isSquareAttacked\<close>
  over the squares still to visit; it stops at the first piece that reaches the square.
\<close>

inductive exec_isPieceMovementValid :: "game \<Rightarrow> pieceType \<Rightarrow> int \<Rightarrow> int \<Rightarrow> int \<Rightarrow> int \<Rightarrow> bool \<times> game \<Rightarrow> bool"
  and exec_isKingMoveValid :: "game \<Rightarrow> int \<Rightarrow> int \<Rightarrow> int \<Rightarrow> int \<Rightarrow> bool \<times> game \<Rightarrow> bool"
  and exec_canCastle :: "game \<Rightarrow> int \<Rightarrow> int \<Rightarrow> int \<Rightarrow> int \<Rightarrow> bool \<times> game \<Rightarrow> bool"
  and exec_isInCheck :: "game \<Rightarrow> color \<Rightarrow> bool \<times> game \<Rightarrow> bool"
  and exec_wouldBeInCheck :: "game \<Rightarrow> color \<Rightarrow> int \<Rightarrow> int \<Rightarrow> bool \<times> game \<Rightarrow> bool"
  and exec_isSquareAttacked :: "game \<Rightarrow> int \<Rightarrow> int \<Rightarrow> color \<Rightarrow> bool \<times> game \<Rightarrow> bool"
  and exec_scan :: "game \<Rightarrow> square list \<Rightarrow> int \<Rightarrow> int \<Rightarrow> color \<Rightarrow> bool \<times> game \<Rightarrow> bool"
where
  pawn: "exec_isPieceMovementValid s Pawn fromRow fromCol toRow toCol
           (isPawnMoveValid s fromRow fromCol toRow toCol, s)"
| rook: "exec_isPieceMovementValid s Rook fromRow fromCol toRow toCol
           (isRookMoveValid s fromRow fromCol toRow toCol, s)"
| knight: "exec_isPieceMovementValid s Knight fromRow fromCol toRow toCol
           ((\<bar>toRow - fromRow\<bar> = 2 \<and> \<bar>toCol - fromCol\<bar> = 1)
              \<or> (\<bar>toRow - fromRow\<bar> = 1 \<and> \<bar>toCol - fromCol\<bar> = 2), s)"
| bishop: "exec_isPieceMovementValid s Bishop fromRow fromCol toRow toCol
           (isBishopMoveValid s fromRow fromCol toRow toCol, s)"
| queen: "exec_isPieceMovementValid s Queen fromRow fromCol toRow toCol
           (isRookMoveValid s fromRow fromCol toRow toCol
              \<or> isBishopMoveValid s fromRow fromCol toRow toCol, s)"
| king: "exec_isKingMoveValid s fromRow fromCol toRow toCol res
         \<Longrightarrow> exec_isPieceMovementValid s King fromRow fromCol toRow toCol res"
| king_step: "\<bar>toRow - fromRow\<bar> \<le> 1 \<and> \<bar>toCol - fromCol\<bar> \<le> 1
         \<Longrightarrow> exec_isKingMoveValid s fromRow fromCol toRow toCol (True, s)"
| king_castle: "\<not> (\<bar>toRow - fromRow\<bar> \<le> 1 \<and> \<bar>toCol - fromCol\<bar> \<le> 1)
         \<Longrightarrow> \<bar>toRow - fromRow\<bar> = 0 \<and> \<bar>toCol - fromCol\<bar> = 2
         \<Longrightarrow> exec_canCastle s fromRow fromCol toRow toCol res
         \<Longrightarrow> exec_isKingMoveValid s fromRow fromCol toRow toCol res"
| king_other: "\<not> (\<bar>toRow - fromRow\<bar> \<le> 1 \<and> \<bar>toCol - fromCol\<bar> \<le> 1)
         \<Longrightarrow> \<not> (\<bar>toRow - fromRow\<bar> = 0 \<and> \<bar>toCol - fromCol\<bar> = 2)
         \<Longrightarrow> exec_isKingMoveValid s fromRow fromCol toRow toCol (False, s)"
| castle_early: "\<not> castleReady s fromRow fromCol toCol
         \<Longrightarrow> exec_canCastle s fromRow fromCol toRow toCol (False, s)"
| castle_in_check: "castleReady s fromRow fromCol toCol
         \<Longrightarrow> board s (fromRow, fromCol) = Some piece
         \<Longrightarrow> exec_isInCheck s (pcolor piece) (True, s1)
         \<Longrightarrow> exec_canCastle s fromRow fromCol toRow toCol (False, s1)"
| castle_first: "castleReady s fromRow fromCol toCol
         \<Longrightarrow> board s (fromRow, fromCol) = Some piece
         \<Longrightarrow> exec_isInCheck s (pcolor piece) (False, s1)
         \<Longrightarrow> step = (if toCol > fromCol then 1 else - 1)
         \<Longrightarrow> exec_wouldBeInCheck s1 (pcolor piece) fromRow (fromCol + 1 * step) (True, s2)
         \<Longrightarrow> exec_canCastle s fromRow fromCol toRow toCol (False, s2)"
| castle_second: "castleReady s fromRow fromCol toCol
         \<Longrightarrow> board s (fromRow, fromCol) = Some piece
         \<Longrightarrow> exec_isInCheck s (pcolor piece) (False, s1)
         \<Longrightarrow> step = (if toCol > fromCol then 1 else - 1)
         \<Longrightarrow> exec_wouldBeInCheck s1 (pcolor piece) fromRow (fromCol + 1 * step) (False, s2)
         \<Longrightarrow> exec_wouldBeInCheck s2 (pcolor piece) fromRow (fromCol + 2 * step) (inCheck, s3)
         \<Longrightarrow> exec_canCastle s fromRow fromCol toRow toCol (\<not> inCheck, s3)"
| no_king: "findKing s c = None \<Longrightarrow> exec_isInCheck s c (False, s)"
| king_found: "findKing s c = Some kingPosition
         \<Longrightarrow> exec_isSquareAttacked s (fst kingPosition) (snd kingPosition) (opponent c) res
         \<Longrightarrow> exec_isInCheck s c res"
| would: "originalPiece = board s (kingRow, kingCol)
         \<Longrightarrow> exec_isSquareAttacked
               (s\<lparr>board := (board s)((kingRow, kingCol) \<mapsto> Piece King c False)\<rparr>)
               kingRow kingCol (opponent c) (inCheck, s1)
         \<Longrightarrow> exec_wouldBeInCheck s c kingRow kingCol
               (inCheck, s1\<lparr>board := (board s1)((kingRow, kingCol) := originalPiece)\<rparr>)"
| attacked: "exec_scan s allSquares row col byColor res
         \<Longrightarrow> exec_isSquareAttacked s row col byColor res"
| scan_end: "exec_scan s [] row col byColor (False, s)"
| scan_skip: "(case board s sq of None \<Rightarrow> True | Some piece \<Rightarrow> pcolor piece \<noteq> byColor)
         \<Longrightarrow> exec_scan s sqs row col byColor res
         \<Longrightarrow> exec_scan s (sq # sqs) row col byColor res"
| scan_hit: "board s sq = Some piece \<Longrightarrow> pcolor piece = byColor
         \<Longrightarrow> exec_isPieceMovementValid s (ptype piece) (fst sq) (snd sq) row col (True, s1)
         \<Longrightarrow> exec_scan s (sq # sqs) row col byColor (True, s1)"
| scan_miss: "board s sq = Some piece \<Longrightarrow> pcolor piece = byColor
         \<Longrightarrow> exec_isPieceMovementValid s (ptype piece) (fst sq) (snd sq) row col (False, s1)
         \<Longrightarrow> exec_scan s1 sqs row col byColor res
         \<Longrightarrow> exec_scan s (sq # sqs) row col byColor res"

text \<open>
  \<open>wouldLeaveKingInCheck\<close> (lines 572-587): two writes, the question, two writes back.
\<close>

inductive exec_wouldLeaveKingInCheck :: "game \<Rightarrow> int \<Rightarrow> int \<Rightarrow> int \<Rightarrow> int \<Rightarrow> bool \<times> game \<Rightarrow> bool" where
  no_piece: "board s (fromRow, fromCol) = None
         \<Longrightarrow> exec_wouldLeaveKingInCheck s fromRow fromCol toRow toCol (False, s)"
| simulate: "board s (fromRow, fromCol) = Some piece
         \<Longrightarrow> capturedPiece = board s (toRow, toCol)
         \<Longrightarrow> exec_isInCheck
               (s\<lparr>board := (board s)((toRow, toCol) \<mapsto> piece, (fromRow, fromCol) := None)\<rparr>)
               (pcolor piece) (inCheck, s1)
         \<Longrightarrow> exec_wouldLeaveKingInCheck s fromRow fromCol toRow toCol
               (inCheck, s1\<lparr>board := (board s1)((fromRow, fromCol) \<mapsto> piece,
                                               (toRow, toCol) := capturedPiece)\<rparr>)"

text \<open>\<open>isValidMove\<close> (lines 250-268), one rule for each \<open>return\<close>.\<close>

inductive exec_isValidMove :: "game \<Rightarrow> int \<Rightarrow> int \<Rightarrow> int \<Rightarrow> int \<Rightarrow> bool \<times> game \<Rightarrow> bool" where
  empty_origin: "board s (fromRow, fromCol) = None
         \<Longrightarrow> exec_isValidMove s fromRow fromCol toRow toCol (False, s)"
| wrong_player: "board s (fromRow, fromCol) = Some piece \<Longrightarrow> pcolor piece \<noteq> currentPlayer s
         \<Longrightarrow> exec_isValidMove s fromRow fromCol toRow toCol (False, s)"
| off_board: "board s (fromRow, fromCol) = Some piece \<Longrightarrow> pcolor piece = currentPlayer s
         \<Longrightarrow> toRow < 0 \<or> toRow > 7 \<or> toCol < 0 \<or> toCol > 7
         \<Longrightarrow> exec_isValidMove s fromRow fromCol toRow toCol (False, s)"
| own_piece: "board s (fromRow, fromCol) = Some piece \<Longrightarrow> pcolor piece = currentPlayer s
         \<Longrightarrow> \<not> (toRow < 0 \<or> toRow > 7 \<or> toCol < 0 \<or> toCol > 7)
         \<Longrightarrow> board s (toRow, toCol) = Some targetPiece \<Longrightarrow> pcolor targetPiece = pcolor piece
         \<Longrightarrow> exec_isValidMove s fromRow fromCol toRow toCol (False, s)"
| bad_movement: "board s (fromRow, fromCol) = Some piece \<Longrightarrow> pcolor piece = currentPlayer s
         \<Longrightarrow> \<not> (toRow < 0 \<or> toRow > 7 \<or> toCol < 0 \<or> toCol > 7)
         \<Longrightarrow> (case board s (toRow, toCol) of
                None \<Rightarrow> True
              | Some targetPiece \<Rightarrow> pcolor targetPiece \<noteq> pcolor piece)
         \<Longrightarrow> exec_isPieceMovementValid s (ptype piece) fromRow fromCol toRow toCol (False, s1)
         \<Longrightarrow> exec_isValidMove s fromRow fromCol toRow toCol (False, s1)"
| checked: "board s (fromRow, fromCol) = Some piece \<Longrightarrow> pcolor piece = currentPlayer s
         \<Longrightarrow> \<not> (toRow < 0 \<or> toRow > 7 \<or> toCol < 0 \<or> toCol > 7)
         \<Longrightarrow> (case board s (toRow, toCol) of
                None \<Rightarrow> True
              | Some targetPiece \<Rightarrow> pcolor targetPiece \<noteq> pcolor piece)
         \<Longrightarrow> exec_isPieceMovementValid s (ptype piece) fromRow fromCol toRow toCol (True, s1)
         \<Longrightarrow> exec_wouldLeaveKingInCheck s1 fromRow fromCol toRow toCol (leaves, s2)
         \<Longrightarrow> exec_isValidMove s fromRow fromCol toRow toCol (\<not> leaves, s2)"

subsection \<open>Every evaluation gives the answer of the function and the state it started from\<close>

lemma game_board_restore [simp]: "s\<lparr>board := board s\<rparr> = s"
  by simp

lemma canCastle_not_ready:
  assumes "\<not> castleReady s fromRow fromCol toCol"
  shows "canCastle s fromRow fromCol toRow toCol = False"
proof (cases "board s (fromRow, fromCol)")
  case None
  then show ?thesis by (simp add: canCastle.simps)
next
  case (Some piece)
  with assms show ?thesis
    by (cases "fromCol < toCol") (auto simp: canCastle.simps castleReady_def Let_def)
qed

lemma canCastle_ready:
  assumes "castleReady s fromRow fromCol toCol" "board s (fromRow, fromCol) = Some piece"
    and "step = (if toCol > fromCol then 1 else - 1)"
  shows "canCastle s fromRow fromCol toRow toCol
     = (\<not> isInCheck s (pcolor piece)
        \<and> \<not> wouldBeInCheck s (pcolor piece) fromRow (fromCol + 1 * step)
        \<and> \<not> wouldBeInCheck s (pcolor piece) fromRow (fromCol + 2 * step))"
  using assms
  by (cases "fromCol < toCol") (simp_all add: canCastle.simps castleReady_def Let_def)

lemma exec_sound:
  "exec_isPieceMovementValid s t fromRow fromCol toRow toCol res
     \<Longrightarrow> res = (isPieceMovementValid s t fromRow fromCol toRow toCol, s)"
  "exec_isKingMoveValid s fromRow fromCol toRow toCol res
     \<Longrightarrow> res = (isKingMoveValid s fromRow fromCol toRow toCol, s)"
  "exec_canCastle s fromRow fromCol toRow toCol res
     \<Longrightarrow> res = (canCastle s fromRow fromCol toRow toCol, s)"
  "exec_isInCheck s c res \<Longrightarrow> res = (isInCheck s c, s)"
  "exec_wouldBeInCheck s c kingRow kingCol res \<Longrightarrow> res = (wouldBeInCheck s c kingRow kingCol, s)"
  "exec_isSquareAttacked s row col byColor res \<Longrightarrow> res = (isSquareAttacked s row col byColor, s)"
  "exec_scan s sqs row col byColor res
     \<Longrightarrow> res = (list_ex (\<lambda>sq. case board s sq of
                     None \<Rightarrow> False
                   | Some piece \<Rightarrow>
                       if pcolor piece = byColor
                       then isPieceMovementValid s (ptype piece) (fst sq) (snd sq) row col
                       else False) sqs, s)"
proof (induction rule: exec_isPieceMovementValid_exec_isKingMoveValid_exec_canCastle_exec_isInCheck_exec_wouldBeInCheck_exec_isSquareAttacked_exec_scan.inducts)
  case (pawn s fromRow fromCol toRow toCol)
  show ?case by (simp add: isPieceMovementValid.simps)
next
  case (rook s fromRow fromCol toRow toCol)
  show ?case by (simp add: isPieceMovementValid.simps)
next
  case (knight s fromRow fromCol toRow toCol)
  show ?case by (simp add: isPieceMovementValid.simps)
next
  case (bishop s fromRow fromCol toRow toCol)
  show ?case by (simp add: isPieceMovementValid.simps)
next
  case (queen s fromRow fromCol toRow toCol)
  show ?case by (simp add: isPieceMovementValid.simps)
next
  case (king s fromRow fromCol toRow toCol res)
  then show ?case by (simp add: isPieceMovementValid.simps)
next
  case (king_step toRow fromRow toCol fromCol s)
  then show ?case by (simp add: isKingMoveValid.simps)
next
  case (king_castle toRow fromRow toCol fromCol s res)
  then show ?case by (simp add: isKingMoveValid.simps)
next
  case (king_other toRow fromRow toCol fromCol s)
  then show ?case by (auto simp: isKingMoveValid.simps)
next
  case (castle_early s fromRow fromCol toCol toRow)
  then show ?case by (simp add: canCastle_not_ready)
next
  case (castle_in_check s fromRow fromCol toCol piece s1 toRow)
  then show ?case by (simp add: canCastle_ready[OF castle_in_check(1,2) refl])
next
  case (castle_first s fromRow fromCol toCol piece s1 step s2 toRow)
  then show ?case by (simp add: canCastle_ready[OF castle_first(1,2) refl])
next
  case (castle_second s fromRow fromCol toCol piece s1 step s2 inCheck s3 toRow)
  then show ?case by (simp add: canCastle_ready[OF castle_second(1,2) refl])
next
  case (no_king s c)
  then show ?case by (simp add: isInCheck.simps)
next
  case (king_found s c kingPosition res)
  then show ?case by (simp add: isInCheck.simps)
next
  case (would originalPiece s kingRow kingCol c inCheck s1)
  then show ?case by (simp add: wouldBeInCheck.simps)
next
  case (attacked s row col byColor res)
  then show ?case by (simp add: isSquareAttacked.simps)
next
  case (scan_end s row col byColor)
  show ?case by simp
next
  case (scan_skip s sq byColor sqs row col res)
  then show ?case by (auto split: option.splits)
next
  case (scan_hit s sq piece byColor row col s1 sqs)
  then show ?case by simp
next
  case (scan_miss s sq piece byColor row col s1 sqs res)
  then show ?case by auto
qed


subsection \<open>Every call has an evaluation\<close>

lemma exec_scan_complete:
  assumes "\<And>sq piece. sq \<in> set sqs \<Longrightarrow> board s sq = Some piece \<Longrightarrow> pcolor piece = byColor
     \<Longrightarrow> exec_isPieceMovementValid s (ptype piece) (fst sq) (snd sq) row col
           (isPieceMovementValid s (ptype piece) (fst sq) (snd sq) row col, s)"
  shows "exec_scan s sqs row col byColor
           (list_ex (\<lambda>sq. case board s sq of
                     None \<Rightarrow> False
                   | Some piece \<Rightarrow>
                       if pcolor piece = byColor
                       then isPieceMovementValid s (ptype piece) (fst sq) (snd sq) row col
                       else False) sqs, s)"
  using assms
proof (induction sqs)
  case Nil
  show ?case by (simp add: exec_isPieceMovementValid_exec_isKingMoveValid_exec_canCastle_exec_isInCheck_exec_wouldBeInCheck_exec_isSquareAttacked_exec_scan.scan_end)
next
  case (Cons sq sqs)
  let ?hit = "\<lambda>sq. case board s sq of
                     None \<Rightarrow> False
                   | Some piece \<Rightarrow>
                       if pcolor piece = byColor
                       then isPieceMovementValid s (ptype piece) (fst sq) (snd sq) row col
                       else False"
  have rest: "exec_scan s sqs row col byColor (list_ex ?hit sqs, s)"
    by (rule Cons.IH) (simp add: Cons.prems)
  show ?case
  proof (cases "case board s sq of None \<Rightarrow> True | Some piece \<Rightarrow> pcolor piece \<noteq> byColor")
    case True
    then have "\<not> ?hit sq" by (auto split: option.splits)
    with scan_skip[OF True rest] show ?thesis by simp
  next
    case False
    then obtain piece where piece: "board s sq = Some piece" "pcolor piece = byColor"
      by (auto split: option.splits)
    have e: "exec_isPieceMovementValid s (ptype piece) (fst sq) (snd sq) row col
           (isPieceMovementValid s (ptype piece) (fst sq) (snd sq) row col, s)"
      by (rule Cons.prems) (simp_all add: piece)
    show ?thesis
    proof (cases "isPieceMovementValid s (ptype piece) (fst sq) (snd sq) row col")
      case True
      with e have "exec_isPieceMovementValid s (ptype piece) (fst sq) (snd sq) row col (True, s)"
        by simp
      from scan_hit[OF piece this] True piece show ?thesis by simp
    next
      case False
      with e have "exec_isPieceMovementValid s (ptype piece) (fst sq) (snd sq) row col (False, s)"
        by simp
      from scan_miss[OF piece this rest] False piece show ?thesis by simp
    qed
  qed
qed

lemma exec_complete:
  "exec_isPieceMovementValid s t fromRow fromCol toRow toCol
     (isPieceMovementValid s t fromRow fromCol toRow toCol, s)"
  "exec_isKingMoveValid s1 fromRow1 fromCol1 toRow1 toCol1
     (isKingMoveValid s1 fromRow1 fromCol1 toRow1 toCol1, s1)"
  "exec_canCastle s2 fromRow2 fromCol2 toRow2 toCol2
     (canCastle s2 fromRow2 fromCol2 toRow2 toCol2, s2)"
  "exec_isInCheck s3 c3 (isInCheck s3 c3, s3)"
  "exec_wouldBeInCheck s4 c4 kingRow kingCol (wouldBeInCheck s4 c4 kingRow kingCol, s4)"
  "exec_isSquareAttacked s5 row col byColor (isSquareAttacked s5 row col byColor, s5)"
proof (induction s t fromRow fromCol toRow toCol and s1 fromRow1 fromCol1 toRow1 toCol1
    and s2 fromRow2 fromCol2 toRow2 toCol2 and s3 c3 and s4 c4 kingRow kingCol
    and s5 row col byColor
    rule: isPieceMovementValid_isKingMoveValid_canCastle_isInCheck_wouldBeInCheck_isSquareAttacked.induct)
  case (1 s pieceType fromRow fromCol toRow toCol)
  then show ?case
    by (cases pieceType) (auto simp: isPieceMovementValid.simps intro: pawn rook knight bishop queen king)
next
  case (2 s fromRow fromCol toRow toCol)
  then show ?case
    by (auto simp: isKingMoveValid.simps intro: king_step king_castle king_other)
next
  case (3 s fromRow fromCol toRow toCol)
  show ?case
  proof (cases "castleReady s fromRow fromCol toCol")
    case False
    then show ?thesis by (simp add: canCastle_not_ready castle_early)
  next
    case True
    then obtain piece where piece: "board s (fromRow, fromCol) = Some piece"
      by (auto simp: castleReady_def split: option.splits)
    define step :: int where "step = (if toCol > fromCol then 1 else - 1)"
    note cc = canCastle_ready[OF True piece step_def]
    from True piece have pre: "\<not> hasMoved piece"
      "\<not> (case board s (fromRow, if fromCol < toCol then 7 else 0) of
             None \<Rightarrow> True
           | Some rook \<Rightarrow> ptype rook \<noteq> Rook \<or> hasMoved rook)"
      "\<not> \<not> (if fromCol < toCol then kingside (castlingRights s (pcolor piece))
              else queenside (castlingRights s (pcolor piece)))"
      "\<not> list_ex (\<lambda>col. board s (fromRow, col) \<noteq> None)
           [min fromCol (if fromCol < toCol then 7 else 0) + 1 ..
            max fromCol (if fromCol < toCol then 7 else 0) - 1]"
      by (simp_all add: castleReady_def Let_def)
    have e1: "exec_isInCheck s (pcolor piece) (isInCheck s (pcolor piece), s)"
      by (rule "3.IH"(1)[OF piece pre(1) refl refl pre(2,3,4)])
    show ?thesis
    proof (cases "isInCheck s (pcolor piece)")
      case True
      with e1 castle_in_check[OF \<open>castleReady s fromRow fromCol toCol\<close> piece] cc
      show ?thesis by simp
    next
      case nic: False
      have e2: "exec_wouldBeInCheck s (pcolor piece) fromRow (fromCol + 1 * step)
          (wouldBeInCheck s (pcolor piece) fromRow (fromCol + 1 * step), s)"
        unfolding step_def
        by (rule "3.IH"(2)[OF piece pre(1) refl refl pre(2,3,4) nic refl])
      show ?thesis
      proof (cases "wouldBeInCheck s (pcolor piece) fromRow (fromCol + 1 * step)")
        case True
        with e1 e2 nic castle_first[OF \<open>castleReady s fromRow fromCol toCol\<close> piece _ step_def] cc
        show ?thesis by simp
      next
        case nw: False
        have e3: "exec_wouldBeInCheck s (pcolor piece) fromRow (fromCol + 2 * step)
          (wouldBeInCheck s (pcolor piece) fromRow (fromCol + 2 * step), s)"
          using nw unfolding step_def
          by (intro "3.IH"(3)[OF piece pre(1) refl refl pre(2,3,4) nic refl]) simp
        from e1 e2 e3 nic nw
          castle_second[OF \<open>castleReady s fromRow fromCol toCol\<close> piece _ step_def, of s s
            "wouldBeInCheck s (pcolor piece) fromRow (fromCol + 2 * step)" s toRow] cc
        show ?thesis by simp
      qed
    qed
  qed
next
  case (4 s c)
  then show ?case
    by (cases "findKing s c") (auto simp: isInCheck.simps intro: no_king king_found)
next
  case (5 s c kingRow kingCol)
  from would[OF refl 5, of ] show ?case
    by (simp add: wouldBeInCheck.simps)
next
  case (6 s row col byColor)
  have "exec_scan s allSquares row col byColor (isSquareAttacked s row col byColor, s)"
    unfolding isSquareAttacked.simps
    by (rule exec_scan_complete) (rule 6, simp_all)
  then show ?case by (rule attacked)
qed


lemma exec_wouldLeaveKingInCheck_sound:
  assumes "exec_wouldLeaveKingInCheck s fromRow fromCol toRow toCol res"
  shows "res = (wouldLeaveKingInCheck s fromRow fromCol toRow toCol, s)"
  using assms
proof cases
  case no_piece
  then show ?thesis by (simp add: wouldLeaveKingInCheck_def)
next
  case (simulate piece capturedPiece inCheck s1)
  from exec_sound(4)[OF simulate(4)] have
    "inCheck = isInCheck (s\<lparr>board := (board s)((toRow, toCol) \<mapsto> piece, (fromRow, fromCol) := None)\<rparr>) (pcolor piece)"
    "s1 = s\<lparr>board := (board s)((toRow, toCol) \<mapsto> piece, (fromRow, fromCol) := None)\<rparr>"
    by simp_all
  moreover have "((board s)((toRow, toCol) \<mapsto> piece, (fromRow, fromCol) := None))
      ((fromRow, fromCol) \<mapsto> piece, (toRow, toCol) := board s (toRow, toCol)) = board s"
    using simulate(2) by (auto simp: fun_eq_iff)
  ultimately show ?thesis using simulate(1,2,3)
    by (simp add: wouldLeaveKingInCheck_def)
qed

lemma exec_wouldLeaveKingInCheck_complete:
  "exec_wouldLeaveKingInCheck s fromRow fromCol toRow toCol
     (wouldLeaveKingInCheck s fromRow fromCol toRow toCol, s)"
proof (cases "board s (fromRow, fromCol)")
  case None
  then show ?thesis by (simp add: wouldLeaveKingInCheck_def no_piece)
next
  case (Some piece)
  let ?s1 = "s\<lparr>board := (board s)((toRow, toCol) \<mapsto> piece, (fromRow, fromCol) := None)\<rparr>"
  have "exec_isInCheck ?s1 (pcolor piece) (isInCheck ?s1 (pcolor piece), ?s1)"
    by (rule exec_complete)
  from simulate[OF Some refl this]
  have "exec_wouldLeaveKingInCheck s fromRow fromCol toRow toCol
     (isInCheck ?s1 (pcolor piece),
      ?s1\<lparr>board := (board ?s1)((fromRow, fromCol) \<mapsto> piece,
                                 (toRow, toCol) := board s (toRow, toCol))\<rparr>)" .
  moreover have "((board s)((toRow, toCol) \<mapsto> piece, (fromRow, fromCol) := None))
      ((fromRow, fromCol) \<mapsto> piece, (toRow, toCol) := board s (toRow, toCol)) = board s"
    using Some by (auto simp: fun_eq_iff)
  ultimately show ?thesis using Some by (simp add: wouldLeaveKingInCheck_def)
qed

lemma exec_isValidMove_sound:
  assumes "exec_isValidMove s fromRow fromCol toRow toCol res"
  shows "res = (isValidMove s fromRow fromCol toRow toCol, s)"
  using assms
proof cases
  case empty_origin
  then show ?thesis by (simp add: isValidMove_def)
next
  case (wrong_player piece)
  then show ?thesis by (simp add: isValidMove_def)
next
  case (off_board piece)
  then show ?thesis by (auto simp: isValidMove_def)
next
  case (own_piece piece targetPiece)
  then show ?thesis by (auto simp: isValidMove_def)
next
  case (bad_movement piece s1)
  from exec_sound(1)[OF bad_movement(6)] bad_movement(1-5) show ?thesis
    by (auto simp: isValidMove_def split: option.splits)
next
  case (checked piece s1 leaves s2)
  from exec_sound(1)[OF checked(6)] have 1: "s1 = s"
    "isPieceMovementValid s (ptype piece) fromRow fromCol toRow toCol" by simp_all
  from exec_wouldLeaveKingInCheck_sound[OF checked(7)] 1 have 2: "s2 = s"
    "leaves = wouldLeaveKingInCheck s fromRow fromCol toRow toCol" by simp_all
  from 1 2 checked(1-5) show ?thesis
    by (auto simp: isValidMove_def split: option.splits)
qed

lemma exec_isValidMove_complete:
  "exec_isValidMove s fromRow fromCol toRow toCol (isValidMove s fromRow fromCol toRow toCol, s)"
proof (cases "board s (fromRow, fromCol)")
  case None
  then show ?thesis by (simp add: isValidMove_def empty_origin)
next
  case (Some piece)
  show ?thesis
  proof (cases "pcolor piece \<noteq> currentPlayer s")
    case True
    with Some show ?thesis by (simp add: isValidMove_def wrong_player)
  next
    case player: False
    show ?thesis
    proof (cases "toRow < 0 \<or> toRow > 7 \<or> toCol < 0 \<or> toCol > 7")
      case True
      with Some player off_board[OF Some _ True] show ?thesis by (simp add: isValidMove_def)
    next
      case inside: False
      show ?thesis
      proof (cases "case board s (toRow, toCol) of
                None \<Rightarrow> True
              | Some targetPiece \<Rightarrow> pcolor targetPiece \<noteq> pcolor piece")
        case False
        then obtain targetPiece where tp: "board s (toRow, toCol) = Some targetPiece"
          "pcolor targetPiece = pcolor piece" by (auto split: option.splits)
        from own_piece[OF Some _ inside tp] Some player inside tp show ?thesis
          by (simp add: isValidMove_def)
      next
        case free: True
        then have nt: "\<not> (case board s (toRow, toCol) of
                    None \<Rightarrow> False
                  | Some targetPiece \<Rightarrow> pcolor targetPiece = pcolor piece)"
          by (auto split: option.splits)
        have e: "exec_isPieceMovementValid s (ptype piece) fromRow fromCol toRow toCol
          (isPieceMovementValid s (ptype piece) fromRow fromCol toRow toCol, s)"
          by (rule exec_complete)
        show ?thesis
        proof (cases "isPieceMovementValid s (ptype piece) fromRow fromCol toRow toCol")
          case False
          with e have "exec_isPieceMovementValid s (ptype piece) fromRow fromCol toRow toCol (False, s)"
            by simp
          from bad_movement[OF Some _ inside free this] Some player inside nt False
          show ?thesis by (simp add: isValidMove_def)
        next
          case True
          with e have "exec_isPieceMovementValid s (ptype piece) fromRow fromCol toRow toCol (True, s)"
            by simp
          from checked[OF Some _ inside free this exec_wouldLeaveKingInCheck_complete]
            Some player inside nt True
          show ?thesis by (auto simp: isValidMove_def)
        qed
      qed
    qed
  qed
qed

text \<open>
  Claim C5.  For every game and all squares, the evaluation of \<open>isValidMove\<close> with all
  its board writes returns (it has a result, the one \<open>isValidMove\<close> computes), and
  whatever it returns, accepted or rejected, the game it leaves is the game it started
  from: board, side to move, castling rights, en-passant target, scores, captured pieces
  and move history are all unchanged.
\<close>

theorem isValidMove_restores_state:
  "exec_isValidMove s fromRow fromCol toRow toCol (isValidMove s fromRow fromCol toRow toCol, s) \<and>
   (\<forall>valid s'. exec_isValidMove s fromRow fromCol toRow toCol (valid, s')
      \<longrightarrow> s' = s \<and> valid = isValidMove s fromRow fromCol toRow toCol)"
  using exec_isValidMove_complete exec_isValidMove_sound by blast

theorem isValidMove_restores_state_witness:
  "exec_isValidMove newGame 6 4 4 4 (True, newGame) \<and>
   exec_isValidMove newGame 6 4 3 4 (False, newGame) \<and>
   exec_isValidMove castleGame 7 4 7 6 (True, castleGame)"
proof -
  have "isValidMove newGame 6 4 4 4" "\<not> isValidMove newGame 6 4 3 4"
    "isValidMove castleGame 7 4 7 6"
    by code_simp+
  with isValidMove_restores_state[of newGame 6 4 4 4]
    isValidMove_restores_state[of newGame 6 4 3 4]
    isValidMove_restores_state[of castleGame 7 4 7 6]
  show ?thesis by simp
qed

end
